theory Spec2Isabelle
  imports Complex_Main "HOL-Library.Word"
begin

unbundle bit_operations_syntax

section \<open>Python primitives used by the generator\<close>

text \<open>
  Python integers are unbounded and are modelled as \<open>int\<close>; the bit operations
  \<open>AND\<close>, \<open>XOR\<close> on \<open>int\<close> are two's complement, as Python's \<open>&\<close> and \<open>^\<close> are.
  \<open>time.time()\<close> returns a float; floats are modelled by the real numbers they denote,
  with the rounding of their arithmetic written out (see below). \<open>bytes\<close> are lists of
  8-bit words.

  The two \<open>raise ValueError(...)\<close> statements of the generators differ in their message
  only; the message prefix is kept as the argument of \<open>ValueError\<close>. \<open>int.to_bytes\<close>
  raises \<open>OverflowError\<close> on a negative value and on one that does not fit the width.
\<close>

type_synonym byte = "8 word"

datatype value_error = Insufficient_entropy | Insufficient_total_entropy

datatype py_error = ValueError value_error | OverflowError

text \<open>\<open>n.to_bytes(4, 'big')\<close>\<close>

definition to_bytes4 :: "int \<Rightarrow> py_error + byte list" where
  "to_bytes4 n =
     (if n < 0 \<or> 2 ^ 32 \<le> n then Inl OverflowError
      else Inr [word_of_int (n div 2 ^ 24), word_of_int (n div 2 ^ 16),
                word_of_int (n div 2 ^ 8), word_of_int n])"

text \<open>\<open>int.from_bytes(bs, 'big')\<close>\<close>

definition from_bytes_big :: "byte list \<Rightarrow> int" where
  "from_bytes_big bs = foldl (\<lambda>acc b. acc * 256 + uint b) 0 bs"

text \<open>\<open>str(n)\<close> for an integer, and \<open>s.encode()\<close> for the ASCII strings it yields.\<close>

function str_nat :: "nat \<Rightarrow> string" where
  "str_nat n =
     (if n < 10 then [char_of (48 + n)]
      else str_nat (n div 10) @ [char_of (48 + n mod 10)])"
  by pat_completeness auto
termination
  by (relation "measure (\<lambda>n. n)") auto

definition str_int :: "int \<Rightarrow> string" where
  "str_int i = (if i < 0 then CHR ''-'' # str_nat (nat (- i)) else str_nat (nat i))"

definition encode :: "string \<Rightarrow> byte list" where
  "encode s = map of_char s"

subsection \<open>Floats\<close>

text \<open>
  A Python float is an IEEE 754 binary64 number. A finite float is modelled by the real
  number it denotes; \<open>a + b\<close> and \<open>a - b\<close> on floats are the exact result rounded to
  the nearest float, ties to the even significand (\<open>float_add\<close>, \<open>float_sub\<close>), and
  comparisons are exact. \<open>double_exponent x\<close> is the binary exponent of \<open>x\<close> kept
  within \<open>-1022 .. 1023\<close> (found by trying the exponents from the largest down), so that
  \<open>ulp x\<close> is the spacing of the floats around \<open>x\<close>, down to \<open>2 powi (- 1074)\<close> for the
  subnormal numbers. \<open>is_double x\<close> says that \<open>x\<close> is a float. Infinities and NaN are
  not represented: a result of magnitude \<open>2 powi 1024\<close> or more, where the float
  operation gives an infinity, is rounded on the spacing of the largest floats instead.
\<close>

definition round_half_even :: "real \<Rightarrow> int" where
  "round_half_even z =
     (let f = \<lfloor>z\<rfloor>; d = z - of_int f
      in if d < 1 / 2 then f else if 1 / 2 < d then f + 1 else if even f then f else f + 1)"

primrec exponent_below :: "nat \<Rightarrow> real \<Rightarrow> int" where
  "exponent_below 0 a = - 1022"
| "exponent_below (Suc n) a =
     (if 2 powi (int n - 1022) \<le> a then int n - 1022 else exponent_below n a)"

definition double_exponent :: "real \<Rightarrow> int" where
  "double_exponent x = exponent_below 2046 \<bar>x\<bar>"

definition ulp :: "real \<Rightarrow> real" where
  "ulp x = 2 powi (double_exponent x - 52)"

definition round_double :: "real \<Rightarrow> real" where
  "round_double x = ulp x * of_int (round_half_even (x / ulp x))"

definition float_add :: "real \<Rightarrow> real \<Rightarrow> real" where
  "float_add a b = round_double (a + b)"

definition float_sub :: "real \<Rightarrow> real \<Rightarrow> real" where
  "float_sub a b = round_double (a - b)"

definition is_double :: "real \<Rightarrow> bool" where
  "is_double x = (round_double x = x)"

subsection \<open>collections.deque with a maximum length\<close>

text \<open>
  \<open>deque(maxlen=n)\<close>: \<open>append\<close> adds at the right end and, when the deque was full,
  discards one item from the left end.
\<close>

record 'a deque =
  maxlen :: nat
  items :: "'a list"

definition deque_new :: "nat \<Rightarrow> 'a deque" where
  "deque_new n = \<lparr>maxlen = n, items = []\<rparr>"

definition deque_append :: "'a deque \<Rightarrow> 'a \<Rightarrow> 'a deque" where
  "deque_append d x =
     (let xs = items d @ [x]
      in d\<lparr>items := (if maxlen d < length xs then tl xs else xs)\<rparr>)"

definition len :: "'a deque \<Rightarrow> nat" where
  "len d = length (items d)"

subsection \<open>hashlib.sha256\<close>

text \<open>
  SHA-256 as in FIPS 180-4, on 32-bit words. A hasher object is modelled by the bytes fed
  to it so far: \<open>update\<close> appends, \<open>digest\<close> hashes what has been fed, which is the
  documented behaviour of \<open>hashlib\<close> (repeated \<open>update\<close> calls are equivalent to one
  call with the concatenation).
\<close>

type_synonym word32 = "32 word"

definition Ch :: "word32 \<Rightarrow> word32 \<Rightarrow> word32 \<Rightarrow> word32" where
  "Ch x y z = (x AND y) XOR (NOT x AND z)"

definition Maj :: "word32 \<Rightarrow> word32 \<Rightarrow> word32 \<Rightarrow> word32" where
  "Maj x y z = (x AND y) XOR (x AND z) XOR (y AND z)"

definition Sigma0 :: "word32 \<Rightarrow> word32" where
  "Sigma0 x = word_rotr 2 x XOR word_rotr 13 x XOR word_rotr 22 x"

definition Sigma1 :: "word32 \<Rightarrow> word32" where
  "Sigma1 x = word_rotr 6 x XOR word_rotr 11 x XOR word_rotr 25 x"

definition sigma0 :: "word32 \<Rightarrow> word32" where
  "sigma0 x = word_rotr 7 x XOR word_rotr 18 x XOR drop_bit 3 x"

definition sigma1 :: "word32 \<Rightarrow> word32" where
  "sigma1 x = word_rotr 17 x XOR word_rotr 19 x XOR drop_bit 10 x"

text \<open>
  The round constants are the first 32 bits of the fractional parts of the cube roots of
  the first 64 primes, and the initial hash value those of the square roots of the first
  8 primes (FIPS 180-4, sections 4.2.2 and 5.3.3). \<open>root_bits k b n r\<close> extends \<open>r\<close>
  by \<open>b\<close> lower bits to the integer \<open>k\<close>-th root of \<open>n\<close>.
\<close>

fun root_bits :: "nat \<Rightarrow> nat \<Rightarrow> int \<Rightarrow> int \<Rightarrow> int" where
  "root_bits k 0 n r = r"
| "root_bits k (Suc b) n r =
     (let r' = r + 2 ^ b in root_bits k b n (if r' ^ k \<le> n then r' else r))"

definition is_prime :: "nat \<Rightarrow> bool" where
  "is_prime p = (2 \<le> p \<and> list_all (\<lambda>d. p mod d \<noteq> 0) [2..<p])"

definition first_primes :: "nat \<Rightarrow> nat list" where
  "first_primes n = take n (filter is_prime [2..<312])"

definition sha256_K :: "word32 list" where
  "sha256_K = map (\<lambda>p. word_of_int (root_bits 3 36 (int p * 2 ^ 96) 0)) (first_primes 64)"

type_synonym sha256_state =
  "word32 \<times> word32 \<times> word32 \<times> word32 \<times> word32 \<times> word32 \<times> word32 \<times> word32"

definition frac_sqrt :: "nat \<Rightarrow> word32" where
  "frac_sqrt p = word_of_int (root_bits 2 36 (int p * 2 ^ 64) 0)"

definition sha256_H0 :: sha256_state where
  "sha256_H0 = (frac_sqrt 2, frac_sqrt 3, frac_sqrt 5, frac_sqrt 7,
                frac_sqrt 11, frac_sqrt 13, frac_sqrt 17, frac_sqrt 19)"

definition word32_bytes :: "word32 \<Rightarrow> byte list" where
  "word32_bytes w = [ucast (drop_bit 24 w), ucast (drop_bit 16 w), ucast (drop_bit 8 w), ucast w]"

definition word64_bytes :: "64 word \<Rightarrow> byte list" where
  "word64_bytes w = map (\<lambda>i. ucast (drop_bit (8 * (7 - i)) w)) [0..<8]"

definition sha256_pad :: "byte list \<Rightarrow> byte list" where
  "sha256_pad m =
     m @ [0x80] @ replicate ((119 - length m mod 64) mod 64) 0
       @ word64_bytes (of_nat (8 * length m))"

fun be_words :: "byte list \<Rightarrow> word32 list" where
  "be_words (a # b # c # d # bs) =
     (push_bit 24 (ucast a) OR push_bit 16 (ucast b) OR push_bit 8 (ucast c) OR ucast d)
       # be_words bs"
| "be_words _ = []"

fun sha256_schedule :: "nat \<Rightarrow> word32 list \<Rightarrow> word32 list" where
  "sha256_schedule 0 w = w"
| "sha256_schedule (Suc n) w =
     (let t = length w
      in sha256_schedule n
           (w @ [sigma1 (w ! (t - 2)) + w ! (t - 7) + sigma0 (w ! (t - 15)) + w ! (t - 16)]))"

fun sha256_round :: "sha256_state \<Rightarrow> word32 \<times> word32 \<Rightarrow> sha256_state" where
  "sha256_round (a, b, c, d, e, f, g, h) (k, w) =
     (let t1 = h + Sigma1 e + Ch e f g + k + w;
          t2 = Sigma0 a + Maj a b c
      in (t1 + t2, a, b, c, d + t1, e, f, g))"

fun sha256_add :: "sha256_state \<Rightarrow> sha256_state \<Rightarrow> sha256_state" where
  "sha256_add (a, b, c, d, e, f, g, h) (a', b', c', d', e', f', g', h') =
     (a + a', b + b', c + c', d + d', e + e', f + f', g + g', h + h')"

definition sha256_compress :: "sha256_state \<Rightarrow> byte list \<Rightarrow> sha256_state" where
  "sha256_compress hs block =
     sha256_add hs (foldl sha256_round hs (zip sha256_K (sha256_schedule 48 (be_words block))))"

function sha256_blocks :: "sha256_state \<Rightarrow> byte list \<Rightarrow> sha256_state" where
  "sha256_blocks hs bs =
     (if length bs < 64 then hs
      else sha256_blocks (sha256_compress hs (take 64 bs)) (drop 64 bs))"
  by pat_completeness auto
termination
  by (relation "measure (\<lambda>(hs, bs). length bs)") auto

fun sha256_words :: "sha256_state \<Rightarrow> word32 list" where
  "sha256_words (a, b, c, d, e, f, g, h) = [a, b, c, d, e, f, g, h]"

definition sha256 :: "byte list \<Rightarrow> byte list" where
  "sha256 m = concat (map word32_bytes (sha256_words (sha256_blocks sha256_H0 (sha256_pad m))))"

type_synonym hasher = "byte list"

definition sha256_new :: hasher where
  "sha256_new = []"

definition hasher_update :: "byte list \<Rightarrow> hasher \<Rightarrow> hasher" where
  "hasher_update bs h = h @ bs"

definition hasher_digest :: "hasher \<Rightarrow> byte list" where
  "hasher_digest h = sha256 h"

section \<open>The collector of entropy\_rng.py\<close>

text \<open>
  Calls that leave the collector object (pynput listeners, threads, the PyAudio stream)
  are returned as a list of \<open>call\<close>s next to the new state. A listener, thread or
  stream object is identified by its ordinal among the objects of its kind that the
  collector has created; \<open>None\<close> means that the attribute has not been set.
\<close>

datatype call =
  Listener_start nat | Listener_stop nat | Thread_start string nat
  | Stream_stop_stream nat | Stream_close nat

definition fresh :: "nat option \<Rightarrow> nat" where
  "fresh h = (case h of None \<Rightarrow> 0 | Some n \<Rightarrow> Suc n)"

record EntropyCollector =
  mouse_entropy :: "int deque"
  cpu_entropy :: "int deque"
  collecting :: bool
  entropy_queue :: "(string \<times> int) list"
  collection_start_time :: "real option"
  mouse_movement_start :: "real option"
  last_mouse_activity :: "real option"
  total_active_movement_time :: real
  mouse_activity_timeout :: real
  mouse_listener :: "nat option"
  cpu_thread :: "nat option"

definition EntropyCollector_init :: EntropyCollector where
  "EntropyCollector_init =
     \<lparr>mouse_entropy = deque_new 2000, cpu_entropy = deque_new 2000, collecting = False,
      entropy_queue = [], collection_start_time = None, mouse_movement_start = None,
      last_mouse_activity = None, total_active_movement_time = 0,
      mouse_activity_timeout = 2, mouse_listener = None, cpu_thread = None\<rparr>"

text \<open>
  \<open>on_mouse_move(x, y)\<close>; \<open>timestamp\<close> is the reading of \<open>time.time_ns()\<close> and
  \<open>current_time\<close> that of \<open>time.time()\<close>. The function is the same in both programs
  and is defined on every extension of the record.
\<close>

definition on_mouse_move ::
  "int \<Rightarrow> int \<Rightarrow> int \<Rightarrow> real \<Rightarrow> 'a EntropyCollector_scheme \<Rightarrow> 'a EntropyCollector_scheme" where
  "on_mouse_move x y timestamp current_time c =
     (if collecting c then
        let c1 = (case last_mouse_activity c of
                    None \<Rightarrow> c
                  | Some l \<Rightarrow>
                      let time_since_last = float_sub current_time l
                      in if time_since_last \<le> mouse_activity_timeout c
                         then c\<lparr>total_active_movement_time :=
                                  float_add (total_active_movement_time c) time_since_last\<rparr>
                         else c);
            c2 = c1\<lparr>last_mouse_activity := Some current_time\<rparr>;
            c3 = (if mouse_movement_start c2 = None
                  then c2\<lparr>mouse_movement_start := Some current_time\<rparr> else c2);
            entropy_data = (x XOR y XOR (timestamp AND 0xFFFFFFFF)) AND 0xFFFF;
            entropy_data' = (if 0 < len (mouse_entropy c3)
                             then entropy_data XOR ((timestamp mod 1000000) * 1000)
                             else entropy_data)
        in c3\<lparr>mouse_entropy := deque_append (mouse_entropy c3) entropy_data',
               entropy_queue := entropy_queue c3 @ [(''mouse'', entropy_data')]\<rparr>
      else c)"

text \<open>
  One iteration of the loop of \<open>collect_cpu_entropy\<close>. The reading is \<open>None\<close> when
  a psutil call raised (the exception is swallowed) and otherwise the non-negative float
  value \<open>v\<close> of the sum \<open>user * 1000000 + system * 1000000 + idle * 1000000 +
  processes * time.time_ns()\<close>; \<open>int(v % 2**32)\<close> is exact on floats.
\<close>

definition cpu_entropy_data :: "real \<Rightarrow> int" where
  "cpu_entropy_data v = \<lfloor>v - of_int \<lfloor>v / 2 ^ 32\<rfloor> * 2 ^ 32\<rfloor>"

definition collect_cpu_entropy_step ::
  "real option \<Rightarrow> 'a EntropyCollector_scheme \<Rightarrow> 'a EntropyCollector_scheme" where
  "collect_cpu_entropy_step reading c =
     (if collecting c then
        (case reading of
           None \<Rightarrow> c
         | Some v \<Rightarrow>
             let entropy_data = cpu_entropy_data v
             in c\<lparr>cpu_entropy := deque_append (cpu_entropy c) entropy_data,
                  entropy_queue := entropy_queue c @ [(''cpu'', entropy_data)]\<rparr>)
      else c)"

definition start_collection :: "real \<Rightarrow> EntropyCollector \<Rightarrow> call list \<times> EntropyCollector" where
  "start_collection now c =
     (let l = fresh (mouse_listener c); t = fresh (cpu_thread c)
      in ([Listener_start l, Thread_start ''cpu'' t],
          c\<lparr>collecting := True, collection_start_time := Some now,
            mouse_movement_start := None, last_mouse_activity := None,
            total_active_movement_time := 0,
            mouse_listener := Some l, cpu_thread := Some t\<rparr>))"

definition stop_collection :: "EntropyCollector \<Rightarrow> call list \<times> EntropyCollector" where
  "stop_collection c =
     ((case mouse_listener c of None \<Rightarrow> [] | Some l \<Rightarrow> [Listener_stop l]),
      c\<lparr>collecting := False\<rparr>)"

definition get_entropy_pool :: "EntropyCollector \<Rightarrow> int list" where
  "get_entropy_pool c = items (mouse_entropy c) @ items (cpu_entropy c)"

definition get_mouse_movement_duration :: "real \<Rightarrow> 'a EntropyCollector_scheme \<Rightarrow> real" where
  "get_mouse_movement_duration current_time c =
     (case last_mouse_activity c of
        None \<Rightarrow> 0
      | Some l \<Rightarrow>
          let accumulated_time = total_active_movement_time c
          in if float_sub current_time l \<le> mouse_activity_timeout c
             then float_add accumulated_time (float_sub current_time l)
             else accumulated_time)"

definition is_mouse_currently_active :: "real \<Rightarrow> 'a EntropyCollector_scheme \<Rightarrow> bool" where
  "is_mouse_currently_active current_time c =
     (case last_mouse_activity c of
        None \<Rightarrow> False
      | Some l \<Rightarrow> float_sub current_time l \<le> mouse_activity_timeout c)"

definition has_sufficient_entropy :: "real \<Rightarrow> int \<Rightarrow> real \<Rightarrow> EntropyCollector \<Rightarrow> bool" where
  "has_sufficient_entropy required_duration min_mouse_samples current_time c =
     (let mouse_duration = get_mouse_movement_duration current_time c;
          mouse_samples = int (len (mouse_entropy c))
      in mouse_duration \<ge> required_duration \<and> mouse_samples \<ge> min_mouse_samples)"

subsection \<open>EntropyRNG of entropy\_rng.py\<close>

record EntropyRNG =
  collector :: EntropyCollector
  generated_numbers :: "int list"

definition EntropyRNG_init :: EntropyRNG where
  "EntropyRNG_init = \<lparr>collector = EntropyCollector_init, generated_numbers = []\<rparr>"

text \<open>\<open>for sample in entropy_pool: hasher.update(sample.to_bytes(4, 'big'))\<close>\<close>

fun update_samples :: "int list \<Rightarrow> hasher \<Rightarrow> py_error + hasher" where
  "update_samples [] h = Inr h"
| "update_samples (sample # rest) h =
     (case to_bytes4 sample of
        Inl e \<Rightarrow> Inl e
      | Inr bs \<Rightarrow> update_samples rest (hasher_update bs h))"

text \<open>
  \<open>generate_random_number(min_entropy_samples=300)\<close>; \<open>now\<close> is the reading of
  \<open>time.time()\<close> inside \<open>has_sufficient_entropy\<close> and \<open>now_ns\<close> that of
  \<open>time.time_ns()\<close> fed to the hasher.
\<close>

definition generate_random_number ::
  "int \<Rightarrow> real \<Rightarrow> int \<Rightarrow> EntropyRNG \<Rightarrow> py_error + (int \<times> EntropyRNG)" where
  "generate_random_number min_entropy_samples now now_ns r =
     (if \<not> has_sufficient_entropy 30 300 now (collector r)
      then Inl (ValueError Insufficient_entropy)
      else
        let entropy_pool = get_entropy_pool (collector r)
        in if int (length entropy_pool) < min_entropy_samples
           then Inl (ValueError Insufficient_total_entropy)
           else
             (case update_samples entropy_pool
                     (hasher_update (encode (str_int now_ns)) sha256_new) of
                Inl e \<Rightarrow> Inl e
              | Inr hasher \<Rightarrow>
                  let hash_bytes = hasher_digest hasher;
                      random_int = from_bytes_big (take 4 hash_bytes);
                      result = random_int mod 2048
                  in Inr (result, r\<lparr>generated_numbers := generated_numbers r @ [result]\<rparr>)))"

definition get_entropy_status :: "EntropyRNG \<Rightarrow> (string \<times> int) list" where
  "get_entropy_status r =
     (let mouse_count = int (len (mouse_entropy (collector r)));
          cpu_count = int (len (cpu_entropy (collector r)))
      in [(''mouse_samples'', mouse_count), (''cpu_samples'', cpu_count),
          (''total_samples'', mouse_count + cpu_count)])"

section \<open>The collector of entropy\_rng\_gui.py\<close>

text \<open>
  The GUI program has its own \<open>EntropyCollector\<close> and \<open>EntropyRNG\<close> classes. Its
  collector has every attribute of the other one, with the same \<open>on_mouse_move\<close>,
  \<open>collect_cpu_entropy\<close>, \<open>get_mouse_movement_duration\<close> and
  \<open>is_mouse_currently_active\<close>, and adds the audio pool, the \<open>audio_recording\<close> flag and
  the PyAudio stream (\<open>audio_stream\<close> is \<open>None\<close> until the audio thread has opened it).
  The constant audio parameters (format, channels, rate, chunk) are left out.
\<close>

record EntropyCollector_gui = EntropyCollector +
  audio_entropy :: "int deque"
  audio_recording :: bool
  audio_stream :: "nat option"
  audio_thread :: "nat option"

definition EntropyCollector_gui_init :: EntropyCollector_gui where
  "EntropyCollector_gui_init =
     \<lparr>mouse_entropy = deque_new 2000, cpu_entropy = deque_new 2000, collecting = False,
      entropy_queue = [], collection_start_time = None, mouse_movement_start = None,
      last_mouse_activity = None, total_active_movement_time = 0,
      mouse_activity_timeout = 2, mouse_listener = None, cpu_thread = None,
      audio_entropy = deque_new 2000, audio_recording = False, audio_stream = None,
      audio_thread = None\<rparr>"

text \<open>
  \<open>collect_audio_entropy\<close> in three parts: opening the stream (\<open>ok\<close> is false when
  \<open>audio_p.open\<close> raised), one iteration of the loop, and the \<open>finally\<close> block. A
  reading is \<open>None\<close> when the iteration raised or the buffer was empty, and otherwise
  the integers \<open>int(np.sqrt(np.mean(audio_array**2)))\<close>, \<open>int(np.max(np.abs(audio_array)))\<close>,
  \<open>int(np.var(audio_array))\<close> and \<open>time.time_ns()\<close>.
\<close>

definition collect_audio_entropy_open :: "bool \<Rightarrow> EntropyCollector_gui \<Rightarrow> EntropyCollector_gui" where
  "collect_audio_entropy_open ok c =
     (if ok then c\<lparr>audio_stream := Some (fresh (audio_stream c))\<rparr> else c)"

definition audio_entropy_data :: "int \<Rightarrow> int \<Rightarrow> int \<Rightarrow> int \<Rightarrow> int" where
  "audio_entropy_data rms_raw peak_raw variance_raw timestamp =
     (let rms = rms_raw AND 0xFFFF;
          peak = peak_raw AND 0xFFFF;
          variance = variance_raw AND 0xFFFFFFFF
      in (rms XOR peak XOR (variance AND 0xFFFF) XOR (timestamp AND 0xFFFF)) AND 0xFFFF)"

definition collect_audio_entropy_step ::
  "(int \<times> int \<times> int \<times> int) option \<Rightarrow> EntropyCollector_gui \<Rightarrow> EntropyCollector_gui" where
  "collect_audio_entropy_step reading c =
     (if collecting c \<and> audio_recording c then
        (case reading of
           None \<Rightarrow> c
         | Some (rms_raw, peak_raw, variance_raw, timestamp) \<Rightarrow>
             let entropy_data = audio_entropy_data rms_raw peak_raw variance_raw timestamp
             in c\<lparr>audio_entropy := deque_append (audio_entropy c) entropy_data,
                  entropy_queue := entropy_queue c @ [(''audio'', entropy_data)]\<rparr>)
      else c)"

definition collect_audio_entropy_finally :: "EntropyCollector_gui \<Rightarrow> call list" where
  "collect_audio_entropy_finally c =
     (case audio_stream c of None \<Rightarrow> [] | Some s \<Rightarrow> [Stream_stop_stream s, Stream_close s])"

definition start_collection_gui ::
  "real \<Rightarrow> bool \<Rightarrow> EntropyCollector_gui \<Rightarrow> call list \<times> EntropyCollector_gui" where
  "start_collection_gui now include_audio c =
     (let l = fresh (mouse_listener c); t = fresh (cpu_thread c);
          c1 = c\<lparr>collecting := True, collection_start_time := Some now,
                 mouse_movement_start := None, last_mouse_activity := None,
                 total_active_movement_time := 0,
                 mouse_listener := Some l, cpu_thread := Some t\<rparr>
      in if include_audio then
           let a = fresh (audio_thread c1)
           in ([Listener_start l, Thread_start ''cpu'' t, Thread_start ''audio'' a],
               c1\<lparr>audio_recording := True, audio_thread := Some a\<rparr>)
         else ([Listener_start l, Thread_start ''cpu'' t], c1))"

definition stop_collection_gui :: "EntropyCollector_gui \<Rightarrow> call list \<times> EntropyCollector_gui" where
  "stop_collection_gui c =
     ((case mouse_listener c of None \<Rightarrow> [] | Some l \<Rightarrow> [Listener_stop l])
        @ (case audio_stream c of None \<Rightarrow> [] | Some s \<Rightarrow> [Stream_stop_stream s, Stream_close s]),
      c\<lparr>collecting := False, audio_recording := False\<rparr>)"

definition get_entropy_pool_gui :: "EntropyCollector_gui \<Rightarrow> int list" where
  "get_entropy_pool_gui c =
     items (mouse_entropy c) @ items (cpu_entropy c) @ items (audio_entropy c)"

definition has_sufficient_entropy_gui ::
  "real \<Rightarrow> int \<Rightarrow> int \<Rightarrow> real \<Rightarrow> EntropyCollector_gui \<Rightarrow> bool" where
  "has_sufficient_entropy_gui required_duration min_mouse_samples min_audio_samples current_time c =
     (let mouse_duration = get_mouse_movement_duration current_time c;
          mouse_samples = int (len (mouse_entropy c));
          audio_samples = int (len (audio_entropy c))
      in mouse_duration \<ge> required_duration \<and> mouse_samples \<ge> min_mouse_samples
         \<and> audio_samples \<ge> min_audio_samples)"

subsection \<open>EntropyRNG of entropy\_rng\_gui.py\<close>

record EntropyRNG_gui =
  collector_gui :: EntropyCollector_gui
  generated_numbers_gui :: "int list"

definition EntropyRNG_gui_init :: EntropyRNG_gui where
  "EntropyRNG_gui_init = \<lparr>collector_gui = EntropyCollector_gui_init, generated_numbers_gui = []\<rparr>"

text \<open>
  \<open>for j, sample in enumerate(entropy_pool): hasher.update((sample ^ i ^ j).to_bytes(4, 'big'))\<close>,
  from position \<open>j\<close> on.
\<close>

fun update_samples_indexed :: "int \<Rightarrow> nat \<Rightarrow> int list \<Rightarrow> hasher \<Rightarrow> py_error + hasher" where
  "update_samples_indexed i j [] h = Inr h"
| "update_samples_indexed i j (sample # rest) h =
     (case to_bytes4 (sample XOR i XOR int j) of
        Inl e \<Rightarrow> Inl e
      | Inr bs \<Rightarrow> update_samples_indexed i (Suc j) rest (hasher_update bs h))"

text \<open>
  The body of the loop \<open>for i in range(count)\<close>; \<open>t\<close> is the reading of
  \<open>time.time_ns()\<close> taken in this iteration.
\<close>

definition generate_index :: "int \<Rightarrow> int list \<Rightarrow> nat \<Rightarrow> py_error + int" where
  "generate_index t entropy_pool i =
     (case update_samples_indexed (int i) 0 entropy_pool
             (hasher_update (encode (str_int (int i)))
                (hasher_update (encode (str_int (t + int i))) sha256_new)) of
        Inl e \<Rightarrow> Inl e
      | Inr hasher \<Rightarrow>
          let hash_bytes = hasher_digest hasher;
              random_int = from_bytes_big (take 4 hash_bytes)
          in Inr (random_int mod 2048))"

fun generate_loop :: "(nat \<Rightarrow> int) \<Rightarrow> int list \<Rightarrow> nat list \<Rightarrow> int list \<Rightarrow> py_error + int list" where
  "generate_loop now_ns entropy_pool [] numbers = Inr numbers"
| "generate_loop now_ns entropy_pool (i # rest) numbers =
     (case generate_index (now_ns i) entropy_pool i of
        Inl e \<Rightarrow> Inl e
      | Inr result \<Rightarrow> generate_loop now_ns entropy_pool rest (numbers @ [result]))"

text \<open>
  \<open>generate_random_numbers(count=24, min_entropy_samples=400)\<close>; \<open>now\<close> is the reading of
  \<open>time.time()\<close> inside \<open>has_sufficient_entropy\<close>, and \<open>now_ns i\<close> the reading of
  \<open>time.time_ns()\<close> in iteration \<open>i\<close> (the clock is read once in every iteration).
  \<open>range(count)\<close> is empty for a negative \<open>count\<close>.
\<close>

definition generate_random_numbers ::
  "int \<Rightarrow> int \<Rightarrow> real \<Rightarrow> (nat \<Rightarrow> int) \<Rightarrow> EntropyRNG_gui \<Rightarrow> py_error + (int list \<times> EntropyRNG_gui)" where
  "generate_random_numbers count min_entropy_samples now now_ns r =
     (if \<not> has_sufficient_entropy_gui 30 300 100 now (collector_gui r)
      then Inl (ValueError Insufficient_entropy)
      else
        let entropy_pool = get_entropy_pool_gui (collector_gui r)
        in if int (length entropy_pool) < min_entropy_samples
           then Inl (ValueError Insufficient_total_entropy)
           else
             (case generate_loop now_ns entropy_pool [0..<nat count] [] of
                Inl e \<Rightarrow> Inl e
              | Inr numbers \<Rightarrow>
                  Inr (numbers, r\<lparr>generated_numbers_gui := generated_numbers_gui r @ numbers\<rparr>)))"

definition get_entropy_status_gui :: "EntropyRNG_gui \<Rightarrow> (string \<times> int) list" where
  "get_entropy_status_gui r =
     (let mouse_count = int (len (mouse_entropy (collector_gui r)));
          cpu_count = int (len (cpu_entropy (collector_gui r)));
          audio_count = int (len (audio_entropy (collector_gui r)))
      in [(''mouse_samples'', mouse_count), (''cpu_samples'', cpu_count),
          (''audio_samples'', audio_count),
          (''total_samples'', mouse_count + cpu_count + audio_count)])"

section \<open>Notions used to state the properties\<close>





text \<open>A snapshot of u32 samples: every value is in the range of an unsigned 32-bit integer.\<close>

definition samples_u32 :: "int list \<Rightarrow> bool" where
  "samples_u32 xs = list_all (\<lambda>s. 0 \<le> s \<and> s < 2 ^ 32) xs"

text \<open>The fixed-width 4-byte big-endian encoding of a value.\<close>

definition be4 :: "int \<Rightarrow> byte list" where
  "be4 n = [word_of_int (n div 2 ^ 24), word_of_int (n div 2 ^ 16),
            word_of_int (n div 2 ^ 8), word_of_int n]"

text \<open>
  The mixing steps as the specification words them. Single number: hash the decimal
  string of the timestamp followed by every sample as 4 bytes big-endian, read the first 4
  digest bytes as a big-endian unsigned integer, reduce modulo 2048. Batch, output index
  \<open>i\<close>: hash the decimal strings of \<open>timestamp + i\<close> and of \<open>i\<close>, then every sample
  \<open>s\<close> at position \<open>j\<close> as \<open>s XOR i XOR j\<close> in 4 bytes big-endian.
\<close>

definition mix_one_spec :: "int \<Rightarrow> int list \<Rightarrow> int" where
  "mix_one_spec timestamp snapshot =
     from_bytes_big (take 4 (sha256 (encode (str_int timestamp) @ concat (map be4 snapshot))))
       mod 2048"

definition mix_many_spec :: "int \<Rightarrow> int list \<Rightarrow> nat \<Rightarrow> int" where
  "mix_many_spec timestamp snapshot i =
     from_bytes_big (take 4 (sha256
        (encode (str_int (timestamp + int i)) @ encode (str_int (int i))
         @ concat (map (\<lambda>(j, s). be4 (s XOR int i XOR int j)) (enumerate 0 snapshot)))))
       mod 2048"

text \<open>A call fails with the insufficient-entropy error: it raises \<open>ValueError\<close>.\<close>

definition insufficient_entropy_error :: "py_error + 'a \<Rightarrow> bool" where
  "insufficient_entropy_error res =
     (case res of Inl (ValueError m) \<Rightarrow> True | Inl OverflowError \<Rightarrow> False | Inr v \<Rightarrow> False)"

text \<open>
  Well-formed collector states: every pool has the maximum length 2000 it was created
  with, holds at most that many items, and holds u32 samples only. The initial states are
  well-formed and every operation of the collectors keeps a state well-formed.
\<close>

definition pool_ok :: "int deque \<Rightarrow> bool" where
  "pool_ok d = (maxlen d = 2000 \<and> len d \<le> 2000 \<and> samples_u32 (items d))"

definition well_formed :: "'a EntropyCollector_scheme \<Rightarrow> bool" where
  "well_formed c = (pool_ok (mouse_entropy c) \<and> pool_ok (cpu_entropy c))"

definition well_formed_gui :: "EntropyCollector_gui \<Rightarrow> bool" where
  "well_formed_gui c = (well_formed c \<and> pool_ok (audio_entropy c))"

section \<open>Example states\<close>


definition sufficient_collector :: EntropyCollector where
  "sufficient_collector =
     EntropyCollector_init\<lparr>mouse_entropy := \<lparr>maxlen = 2000, items = replicate 300 7\<rparr>,
                            collecting := True, last_mouse_activity := Some 100,
                            total_active_movement_time := 31\<rparr>"

definition sufficient_rng :: EntropyRNG where
  "sufficient_rng = \<lparr>collector = sufficient_collector, generated_numbers = []\<rparr>"

definition no_audio_collector :: EntropyCollector_gui where
  "no_audio_collector =
     EntropyCollector_gui_init\<lparr>mouse_entropy := \<lparr>maxlen = 2000, items = replicate 300 7\<rparr>,
                                collecting := True, last_mouse_activity := Some 100,
                                total_active_movement_time := 31\<rparr>"

definition sufficient_collector_gui :: EntropyCollector_gui where
  "sufficient_collector_gui =
     no_audio_collector\<lparr>audio_entropy := \<lparr>maxlen = 2000, items = replicate 100 9\<rparr>,
                         audio_recording := True\<rparr>"

definition sufficient_rng_gui :: EntropyRNG_gui where
  "sufficient_rng_gui = \<lparr>collector_gui = sufficient_collector_gui, generated_numbers_gui = []\<rparr>"

definition running_collector :: EntropyCollector where
  "running_collector =
     (snd (start_collection 0 EntropyCollector_init))
       \<lparr>last_mouse_activity := Some 50, total_active_movement_time := 12\<rparr>"


definition audio_off_collector :: EntropyCollector_gui where
  "audio_off_collector =
     (snd (start_collection_gui 0 False EntropyCollector_gui_init))
       \<lparr>mouse_entropy := \<lparr>maxlen = 2000, items = replicate 300 7\<rparr>,
        last_mouse_activity := Some 100, total_active_movement_time := 31\<rparr>"

definition audio_off_rng :: EntropyRNG_gui where
  "audio_off_rng = \<lparr>collector_gui = audio_off_collector, generated_numbers_gui = []\<rparr>"

section \<open>Float arithmetic\<close>

lemma round_half_even_cases:
  "round_half_even z = \<lfloor>z\<rfloor> \<or> (round_half_even z = \<lfloor>z\<rfloor> + 1 \<and> of_int \<lfloor>z\<rfloor> < z)"
  by (auto simp: round_half_even_def Let_def)

lemma round_half_even_of_int: "round_half_even (of_int k) = k"
  by (simp add: round_half_even_def)

lemma round_half_even_ge: "of_int k \<le> z \<Longrightarrow> k \<le> round_half_even z"
proof -
  assume "of_int k \<le> z"
  then have "k \<le> \<lfloor>z\<rfloor>" by (simp add: le_floor_iff)
  then show ?thesis using round_half_even_cases [of z] by auto
qed

lemma round_half_even_le:
  assumes "z \<le> of_int k"
  shows "round_half_even z \<le> k"
proof -
  have f: "\<lfloor>z\<rfloor> \<le> k" using assms by (metis floor_mono floor_of_int)
  show ?thesis
  proof (cases "\<lfloor>z\<rfloor> = k")
    case True
    then have "of_int k \<le> z" by (metis of_int_floor_le)
    with assms have "z = of_int k" by simp
    then show ?thesis by (simp add: round_half_even_of_int)
  next
    case False
    with f have "\<lfloor>z\<rfloor> + 1 \<le> k" by simp
    with f show ?thesis using round_half_even_cases [of z] by auto
  qed
qed

lemma exponent_below_ge: "- 1022 \<le> exponent_below n a"
  by (induction n) auto

lemma exponent_below_le: "exponent_below n a \<le> max (- 1022) (int n - 1023)"
  by (induction n) auto

lemma exponent_below_lower: "- 1022 < exponent_below n a \<Longrightarrow> 2 powi exponent_below n a \<le> a"
  by (induction n) (auto split: if_splits)

lemma exponent_below_upper:
  "exponent_below n a < int n - 1023 \<Longrightarrow> a < 2 powi (exponent_below n a + 1)"
proof (induction n)
  case 0
  then show ?case using exponent_below_ge [of 0 a] by simp
next
  case (Suc n)
  show ?case
  proof (cases "2 powi (int n - 1022) \<le> a")
    case True
    then show ?thesis using Suc.prems by simp
  next
    case False
    then have lt: "a < 2 powi (int n - 1022)" and eq: "exponent_below (Suc n) a = exponent_below n a"
      by simp_all
    show ?thesis
    proof (cases "exponent_below n a < int n - 1023")
      case True
      then show ?thesis using Suc.IH eq by simp
    next
      case False
      with exponent_below_le [of n a] Suc.prems eq
      have "exponent_below n a = int n - 1023" by (auto simp: max_def split: if_splits)
      then have "int n - 1022 = exponent_below (Suc n) a + 1" using eq by simp
      with lt show ?thesis by (simp only:)
    qed
  qed
qed

lemma double_exponent_range: "- 1022 \<le> double_exponent x" "double_exponent x \<le> 1023"
  using exponent_below_ge [of 2046 "\<bar>x\<bar>"] exponent_below_le [of 2046 "\<bar>x\<bar>"]
  by (simp_all add: double_exponent_def)

lemma double_exponent_lower: "- 1022 < double_exponent x \<Longrightarrow> 2 powi double_exponent x \<le> \<bar>x\<bar>"
  unfolding double_exponent_def by (rule exponent_below_lower)

lemma double_exponent_upper: "double_exponent x < 1023 \<Longrightarrow> \<bar>x\<bar> < 2 powi (double_exponent x + 1)"
  unfolding double_exponent_def by (rule exponent_below_upper) simp

lemma powi2_mono: "m \<le> n \<Longrightarrow> (2::real) powi m \<le> 2 powi n"
  by (rule power_int_increasing) simp_all

lemma powi2_less: "(2::real) powi m < 2 powi n \<Longrightarrow> m < n"
  by (rule ccontr) (use powi2_mono [of n m] in simp)

lemma double_exponent_unique:
  assumes "- 1022 \<le> e" and "e \<le> 1023"
    and lo: "e = - 1022 \<or> 2 powi e \<le> \<bar>x\<bar>"
    and hi: "e = 1023 \<or> \<bar>x\<bar> < 2 powi (e + 1)"
  shows "double_exponent x = e"
proof (rule ccontr)
  assume ne: "double_exponent x \<noteq> e"
  let ?E = "double_exponent x"
  note r = double_exponent_range [of x]
  show False
  proof (cases "?E < e")
    case True
    then have "e \<noteq> - 1022" using r by simp
    with lo have 1: "2 powi e \<le> \<bar>x\<bar>" by simp
    have "?E < 1023" using True assms(2) by simp
    then have "\<bar>x\<bar> < 2 powi (?E + 1)" by (rule double_exponent_upper)
    with 1 have "(2::real) powi e < 2 powi (?E + 1)" by simp
    then have "e < ?E + 1" by (rule powi2_less)
    with True show False by simp
  next
    case False
    with ne have gt: "e < ?E" by simp
    then have "e \<noteq> 1023" using r by simp
    with hi have 1: "\<bar>x\<bar> < 2 powi (e + 1)" by simp
    have "- 1022 < ?E" using gt assms(1) by simp
    then have "2 powi ?E \<le> \<bar>x\<bar>" by (rule double_exponent_lower)
    with 1 have "(2::real) powi ?E < 2 powi (e + 1)" by simp
    then have "?E < e + 1" by (rule powi2_less)
    with gt show False by simp
  qed
qed

lemma ulp_pos: "0 < ulp x"
  by (simp add: ulp_def)

lemma ulp_52: "ulp x * 4503599627370496 = 2 powi double_exponent x"
proof -
  have "(2::real) powi (double_exponent x - 52) * 2 powi 52 = 2 powi (double_exponent x - 52 + 52)"
    by (rule power_int_add [symmetric]) simp
  then show ?thesis by (simp add: ulp_def)
qed

lemma ulp_53: "ulp x * 9007199254740992 = 2 powi (double_exponent x + 1)"
proof -
  have "(2::real) powi (double_exponent x - 52) * 2 powi 53 = 2 powi (double_exponent x - 52 + 53)"
    by (rule power_int_add [symmetric]) simp
  then show ?thesis by (simp add: ulp_def add.commute)
qed

lemma round_double_eq: "round_double x = ulp x * of_int (round_half_even (x / ulp x))"
  by (simp add: round_double_def)

lemma mantissa_lower_pos:
  assumes "- 1022 < double_exponent y" and "0 \<le> y"
  shows "4503599627370496 \<le> round_half_even (y / ulp y)"
proof -
  have "2 powi double_exponent y \<le> y"
    using double_exponent_lower [OF assms(1)] assms(2) by simp
  then have "ulp y * 4503599627370496 \<le> y" by (simp add: ulp_52)
  then have "of_int 4503599627370496 \<le> y / ulp y"
    using ulp_pos [of y] by (simp add: pos_le_divide_eq mult.commute)
  then show ?thesis by (rule round_half_even_ge)
qed

lemma mantissa_lower_neg:
  assumes "- 1022 < double_exponent y" and "y \<le> 0"
  shows "round_half_even (y / ulp y) \<le> - 4503599627370496"
proof -
  have "2 powi double_exponent y \<le> - y"
    using double_exponent_lower [OF assms(1)] assms(2) by simp
  then have "ulp y * 4503599627370496 \<le> - y" by (simp add: ulp_52)
  then have "y \<le> - 4503599627370496 * ulp y" by (simp add: mult.commute)
  then have "y / ulp y \<le> of_int (- 4503599627370496)"
    using ulp_pos [of y] by (simp add: pos_divide_le_eq)
  then show ?thesis by (rule round_half_even_le)
qed

lemma mantissa_upper:
  assumes "double_exponent y < 1023"
  shows "- 9007199254740992 \<le> round_half_even (y / ulp y)" and "round_half_even (y / ulp y) \<le> 9007199254740992"
proof -
  have "\<bar>y\<bar> < 2 powi (double_exponent y + 1)"
    using assms by (rule double_exponent_upper)
  then have b: "\<bar>y\<bar> < ulp y * 9007199254740992" by (simp add: ulp_53)
  then have "- 9007199254740992 * ulp y \<le> y" and "y \<le> 9007199254740992 * ulp y"
    by (simp_all add: mult.commute abs_less_iff)
  then have lo: "of_int (- 9007199254740992) \<le> y / ulp y"
    and hi: "y / ulp y \<le> of_int 9007199254740992"
    using ulp_pos [of y] by (simp_all add: pos_le_divide_eq pos_divide_le_eq)
  show "- 9007199254740992 \<le> round_half_even (y / ulp y)"
    using lo by (rule round_half_even_ge)
  show "round_half_even (y / ulp y) \<le> 9007199254740992"
    using hi by (rule round_half_even_le)
qed

lemma is_double_zero: "is_double 0"
  by (simp add: is_double_def round_double_def round_half_even_def)




lemma is_double_multiple:
  assumes "r = ulp r * of_int k"
  shows "is_double r"
proof -
  have "r / ulp r = of_int k"
    using assms ulp_pos [of r] by (metis nonzero_mult_div_cancel_left less_irrefl)
  then show ?thesis
    using assms by (simp add: is_double_def round_double_def round_half_even_of_int)
qed

lemma is_double_round_double: "is_double (round_double x)"
proof -
  let ?E = "double_exponent x"
  let ?k = "round_half_even (x / ulp x)"
  let ?r = "round_double x"
  have r: "?r = ulp x * of_int ?k" by (simp add: round_double_def)
  have abs_r: "\<bar>?r\<bar> = ulp x * of_int \<bar>?k\<bar>"
    using ulp_pos [of x] by (simp add: r abs_mult)
  note rng = double_exponent_range [of x]
  have same: "is_double ?r" if "double_exponent ?r = ?E"
  proof -
    from that have "ulp ?r = ulp x" by (simp add: ulp_def)
    with r have "?r = ulp ?r * of_int ?k" by simp
    then show ?thesis by (rule is_double_multiple)
  qed
  consider (small) "\<bar>?k\<bar> < 4503599627370496"
    | (normal) "4503599627370496 \<le> \<bar>?k\<bar>" "\<bar>?k\<bar> < 9007199254740992"
    | (carry) "\<bar>?k\<bar> = 9007199254740992" "?E < 1023"
    | (top) "9007199254740992 \<le> \<bar>?k\<bar>" "?E = 1023"
  proof -
    have "\<bar>?k\<bar> \<le> 9007199254740992" if "?E < 1023"
      using mantissa_upper [OF that] by simp
    then show ?thesis using that rng(2) by fastforce
  qed
  then show ?thesis
  proof cases
    case small
    have "?E = - 1022"
    proof (rule ccontr)
      assume "?E \<noteq> - 1022"
      then have gt: "- 1022 < ?E" using rng by simp
      have "4503599627370496 \<le> \<bar>?k\<bar>"
      proof (cases "0 \<le> x")
        case True
        then show ?thesis using mantissa_lower_pos [OF gt] by simp
      next
        case False
        then show ?thesis using mantissa_lower_neg [OF gt, of] by simp
      qed
      with small show False by simp
    qed
    have "of_int \<bar>?k\<bar> < (4503599627370496::real)" using small by simp
    then have "ulp x * of_int \<bar>?k\<bar> < ulp x * 4503599627370496"
      using ulp_pos [of x] by (intro mult_strict_left_mono) simp_all
    then have lt: "\<bar>?r\<bar> < 2 powi (- 1022)"
      using \<open>?E = - 1022\<close> by (simp only: abs_r ulp_52)
    have "(2::real) powi (- 1022) \<le> 2 powi (- 1022 + 1)" by (intro powi2_mono) simp
    with lt have "\<bar>?r\<bar> < 2 powi (- 1022 + 1)" by simp
    then have "double_exponent ?r = - 1022"
      by (intro double_exponent_unique) simp_all
    with \<open>?E = - 1022\<close> show ?thesis by (intro same) simp
  next
    case normal
    have "(4503599627370496::real) \<le> of_int \<bar>?k\<bar>" using normal(1) by simp
    then have "ulp x * 4503599627370496 \<le> ulp x * of_int \<bar>?k\<bar>"
      using ulp_pos [of x] by (intro mult_left_mono) simp_all
    then have lo: "2 powi ?E \<le> \<bar>?r\<bar>" by (simp only: abs_r ulp_52)
    have "of_int \<bar>?k\<bar> < (9007199254740992::real)" using normal(2) by simp
    then have "ulp x * of_int \<bar>?k\<bar> < ulp x * 9007199254740992"
      using ulp_pos [of x] by (intro mult_strict_left_mono) simp_all
    then have hi: "\<bar>?r\<bar> < 2 powi (?E + 1)" by (simp only: abs_r ulp_53)
    have "double_exponent ?r = ?E"
      using rng lo hi by (intro double_exponent_unique) simp_all
    then show ?thesis by (rule same)
  next
    case top
    have "(4503599627370496::real) \<le> of_int \<bar>?k\<bar>" using top(1) by simp
    then have "ulp x * 4503599627370496 \<le> ulp x * of_int \<bar>?k\<bar>"
      using ulp_pos [of x] by (intro mult_left_mono) simp_all
    then have lo: "2 powi ?E \<le> \<bar>?r\<bar>" by (simp only: abs_r ulp_52)
    have "double_exponent ?r = ?E"
      using rng lo top(2) by (intro double_exponent_unique) simp_all
    then show ?thesis by (rule same)
  next
    case carry
    have "of_int \<bar>?k\<bar> = (9007199254740992::real)" using carry(1) by simp
    then have abs_eq: "\<bar>?r\<bar> = 2 powi (?E + 1)" by (simp only: abs_r ulp_53)
    have "(2::real) powi (?E + 1) \<le> 2 powi (?E + 1 + 1)" by (intro powi2_mono) simp
    moreover have "(2::real) powi (?E + 1) \<noteq> 2 powi (?E + 1 + 1)"
      using power_int_strict_increasing [of "?E + 1" "?E + 1 + 1" "2::real"] by simp
    ultimately have "\<bar>?r\<bar> < 2 powi (?E + 1 + 1)" using abs_eq by simp
    then have E': "double_exponent ?r = ?E + 1"
      using rng carry(2) abs_eq by (intro double_exponent_unique) simp_all
    have "ulp ?r = 2 powi (?E - 52 + 1)" by (simp add: ulp_def E' algebra_simps)
    also have "\<dots> = ulp x * 2"
      unfolding ulp_def by (subst power_int_add) simp_all
    finally have u: "ulp ?r = ulp x * 2" .
    obtain h where h: "?k = 2 * h"
    proof (cases "0 \<le> ?k")
      case True
      with carry(1) have "?k = 2 * 4503599627370496" by simp
      then show ?thesis by (rule that)
    next
      case False
      with carry(1) have "?k = 2 * (- 4503599627370496)" by simp
      then show ?thesis by (rule that)
    qed
    have eq: "ulp ?r * of_int h = ulp x * of_int ?k"
      unfolding u by (simp add: h)
    have "?r = ulp ?r * of_int h" by (rule trans [OF r eq [symmetric]])
    then show ?thesis by (rule is_double_multiple)
  qed
qed


lemma is_double_float_sub: "is_double (float_sub a b)"
  by (simp add: float_sub_def is_double_round_double)




lemma is_double_of_int:
  assumes "\<bar>n\<bar> < 9007199254740992"
  shows "is_double (of_int n)"
proof -
  let ?x = "of_int n :: real"
  let ?E = "double_exponent ?x"
  have "?E \<le> 52"
  proof (rule ccontr)
    assume "\<not> ?E \<le> 52"
    then have gt: "52 < ?E" by simp
    then have "2 powi ?E \<le> \<bar>?x\<bar>" by (intro double_exponent_lower) simp
    moreover have "(2::real) powi 53 \<le> 2 powi ?E" using gt by (intro powi2_mono) simp
    moreover have "\<bar>?x\<bar> < 9007199254740992" using assms by (simp flip: of_int_abs)
    ultimately show False by simp
  qed
  then obtain m where m: "52 - ?E = int m" by (metis diff_ge_0_iff_ge nonneg_int_cases)
  have "ulp ?x * 2 ^ m = 2 powi (?E - 52) * 2 powi int m" by (simp add: ulp_def)
  also have "\<dots> = 2 powi (?E - 52 + int m)" by (rule power_int_add [symmetric]) simp
  also have "\<dots> = 1" using m by (simp add: algebra_simps)
  finally have "ulp ?x * 2 ^ m = 1" .
  then have "?x = ulp ?x * of_int (n * 2 ^ m)"
    by (simp add: algebra_simps)
  then show ?thesis by (rule is_double_multiple)
qed

lemma round_double_of_int: "\<bar>n\<bar> < 9007199254740992 \<Longrightarrow> round_double (of_int n) = of_int n"
  using is_double_of_int [of n] by (simp add: is_double_def)


lemma round_double_0: "round_double 0 = 0"
  using is_double_zero by (simp add: is_double_def)

lemma round_double_1: "round_double 1 = 1"
  using round_double_of_int [of 1] by simp

lemma round_double_numeral:
  "(numeral k :: int) < 9007199254740992 \<Longrightarrow> round_double (numeral k) = numeral k"
  using round_double_of_int [of "numeral k"] by simp

section \<open>Entropy pools are bounded FIFO buffers\<close>

lemma deque_append_maxlen: "maxlen (deque_append d x) = maxlen d"
  by (simp add: deque_append_def Let_def)

lemma deque_append_items:
  "items (deque_append d x) =
     (if maxlen d \<le> length (items d) then tl (items d @ [x]) else items d @ [x])"
  by (simp add: deque_append_def Let_def)

lemma deque_append_len: "length (items d) \<le> maxlen d \<Longrightarrow> len (deque_append d x) \<le> maxlen d"
  by (auto simp: len_def deque_append_items)

lemma foldl_deque_append_maxlen: "maxlen (foldl deque_append d xs) = maxlen d"
  by (induction xs arbitrary: d) (simp_all add: deque_append_maxlen)

lemma foldl_deque_append_items:
  "length (items d) \<le> maxlen d \<Longrightarrow>
   items (foldl deque_append d xs)
     = drop (length (items d) + length xs - maxlen d) (items d @ xs)"
proof (induction xs arbitrary: d)
  case Nil
  then show ?case by simp
next
  case (Cons x xs)
  let ?d = "deque_append d x"
  have le: "length (items ?d) \<le> maxlen ?d"
    using deque_append_len [OF Cons.prems, of x] by (simp add: len_def deque_append_maxlen)
  have "items (foldl deque_append ?d xs)
          = drop (length (items ?d) + length xs - maxlen d) (items ?d @ xs)"
    using Cons.IH [OF le] by (simp add: deque_append_maxlen)
  also have "\<dots> = drop (length (items d) + length (x # xs) - maxlen d) (items d @ x # xs)"
  proof (cases "maxlen d \<le> length (items d)")
    case True
    with Cons.prems have eq: "length (items d) = maxlen d" by simp
    show ?thesis
    proof (cases "items d")
      case Nil
      with eq show ?thesis by (simp add: deque_append_items)
    next
      case (Cons y ys)
      with eq show ?thesis by (simp add: deque_append_items)
    qed
  next
    case False
    then show ?thesis by (simp add: deque_append_items)
  qed
  finally show ?case by simp
qed

text \<open>
  Claim C6. Every pool is created by \<open>deque(maxlen=2000)\<close> and only ever changed by
  \<open>append\<close>. For a pool of maximum length 2000 that holds at most 2000 items, after
  pushing any sequence \<open>xs\<close> the length is still at most 2000 and the content is
  exactly the last 2000 items of what was held followed by \<open>xs\<close>, in push order, with
  nothing reordered or removed but the oldest items; a push onto a full pool drops exactly
  its oldest item; and a pool that starts empty holds exactly the last 2000 pushed values.
\<close>

theorem pool_fifo_capacity:
  assumes "maxlen d = 2000" and "len d \<le> 2000"
  shows "len (foldl deque_append d xs) \<le> 2000
       \<and> items (foldl deque_append d xs) = drop (len d + length xs - 2000) (items d @ xs)
       \<and> (len d = 2000 \<longrightarrow> items (deque_append d x) = tl (items d) @ [x])
       \<and> items (foldl deque_append (deque_new 2000) xs) = drop (length xs - 2000) xs"
proof -
  have le: "length (items d) \<le> maxlen d"
    using assms by (simp add: len_def)
  have a: "items (foldl deque_append d xs) = drop (len d + length xs - 2000) (items d @ xs)"
    using foldl_deque_append_items [OF le, of xs] assms by (simp add: len_def)
  have b: "len (foldl deque_append d xs) \<le> 2000"
    using assms unfolding len_def a [unfolded len_def] by simp
  have c: "len d = 2000 \<longrightarrow> items (deque_append d x) = tl (items d) @ [x]"
    using assms by (cases "items d") (auto simp: len_def deque_append_items)
  have d: "items (foldl deque_append (deque_new 2000) xs) = drop (length xs - 2000) xs"
    using foldl_deque_append_items [of "deque_new 2000" xs] by (simp add: deque_new_def)
  from a b c d show ?thesis by blast
qed

theorem pool_fifo_capacity_witness:
  "maxlen \<lparr>maxlen = 2000, items = replicate 2000 (0::int)\<rparr> = 2000
   \<and> len \<lparr>maxlen = 2000, items = replicate 2000 (0::int)\<rparr> \<le> 2000
   \<and> len \<lparr>maxlen = 2000, items = replicate 2000 (0::int)\<rparr> = 2000
   \<and> items (foldl deque_append \<lparr>maxlen = 2000, items = replicate 2000 (0::int)\<rparr> [1, 2, 3])
       = replicate 1997 0 @ [1, 2, 3]
   \<and> items (deque_append \<lparr>maxlen = 2000, items = replicate 2000 (0::int)\<rparr> 7)
       = replicate 1999 0 @ [7]"
proof -
  let ?d = "\<lparr>maxlen = 2000, items = replicate 2000 (0::int)\<rparr>"
  have h1: "maxlen ?d = 2000" by simp
  have h2: "len ?d \<le> 2000" by (simp add: len_def)
  have h3: "len ?d = 2000" by (simp add: len_def)
  have r: "replicate 2000 (0::int) = 0 # replicate 1999 0"
    by (simp add: replicate_Suc [symmetric] del: replicate_Suc)
  have r3: "drop 3 (replicate 2000 (0::int)) = replicate 1997 0"
    by simp
  from pool_fifo_capacity [OF h1 h2, of "[1, 2, 3]" 7] h3
  have "items (foldl deque_append ?d [1, 2, 3]) = drop 3 (replicate 2000 0 @ [1, 2, 3])"
    and "items (deque_append ?d 7) = tl (replicate 2000 0) @ [7]"
    by (simp_all add: len_def)
  then show ?thesis using h1 h2 h3 r3 by (simp add: r)
qed

section \<open>The activity tracker\<close>

lemma on_mouse_move_idle: "\<not> collecting c \<Longrightarrow> on_mouse_move x y ts t c = c"
  by (simp add: on_mouse_move_def)
















section \<open>The sufficiency predicate\<close>

lemma example_float_sums: "float_sub 101 100 = 1" "float_add 31 1 = 32"
  by (simp_all add: float_sub_def float_add_def round_double_1 round_double_numeral)

lemma sufficient_collector_ok: "has_sufficient_entropy 30 300 101 sufficient_collector"
  by (simp add: has_sufficient_entropy_def get_mouse_movement_duration_def len_def
      sufficient_collector_def EntropyCollector_init_def example_float_sums)

lemma sufficient_collector_gui_ok:
  "has_sufficient_entropy_gui 30 300 100 101 sufficient_collector_gui"
  by (simp add: has_sufficient_entropy_gui_def get_mouse_movement_duration_def len_def
      sufficient_collector_gui_def no_audio_collector_def EntropyCollector_gui_init_def
      example_float_sums)

text \<open>
  What the two predicates compute. In entropy\_rng.py, which has no audio source, the
  predicate holds exactly when the active duration is at least 30 seconds and the pointer
  pool holds at least 300 samples. In entropy\_rng\_gui.py it holds exactly when, in
  addition, the audio pool holds at least 100 samples, whatever \<open>audio_recording\<close> is.
\<close>

theorem sufficiency_predicate:
  "has_sufficient_entropy 30 300 now c
     = (30 \<le> get_mouse_movement_duration now c \<and> 300 \<le> len (mouse_entropy c))
   \<and> has_sufficient_entropy_gui 30 300 100 now g
     = (30 \<le> get_mouse_movement_duration now g \<and> 300 \<le> len (mouse_entropy g)
        \<and> 100 \<le> len (audio_entropy g))
   \<and> has_sufficient_entropy_gui 30 300 100 now (g\<lparr>audio_recording := b\<rparr>)
     = has_sufficient_entropy_gui 30 300 100 now g"
proof -
  have "get_mouse_movement_duration now (g\<lparr>audio_recording := b\<rparr>)
          = get_mouse_movement_duration now g"
    by (simp add: get_mouse_movement_duration_def split: option.splits)
  then show ?thesis
    by (simp add: has_sufficient_entropy_def has_sufficient_entropy_gui_def Let_def)
qed

lemma audio_off_no_samples:
  "\<not> audio_recording c \<Longrightarrow> collect_audio_entropy_step reading c = c"
  by (simp add: collect_audio_entropy_step_def)

lemma audio_short_never_generates:
  "len (audio_entropy (collector_gui g)) < 100 \<Longrightarrow>
   generate_random_numbers count m now clock g = Inl (ValueError Insufficient_entropy)"
  by (simp add: generate_random_numbers_def has_sufficient_entropy_gui_def Let_def)

text \<open>
  Claim C4. The claim holds of entropy\_rng.py and of the GUI program with audio collection
  on, as shown above, but not of the GUI program with audio collection off. After
  \<open>start_collection(include_audio=False)\<close>, 32 seconds of activity and 300 pointer
  samples, no audio thread runs, the audio pool is empty and stays empty, and the
  predicate is false although the duration and the pointer pool meet their thresholds:
  the audio pool decides it, and \<open>generate_random_numbers\<close> raises the
  insufficient-entropy error.
\<close>

theorem sufficiency_audio_off:
  "fst (start_collection_gui 0 False EntropyCollector_gui_init)
     = [Listener_start 0, Thread_start ''cpu'' 0]
   \<and> \<not> audio_recording audio_off_collector
   \<and> collect_audio_entropy_step (Some (1, 2, 3, 4)) audio_off_collector = audio_off_collector
   \<and> 30 \<le> get_mouse_movement_duration 101 audio_off_collector
   \<and> 300 \<le> len (mouse_entropy audio_off_collector)
   \<and> len (audio_entropy audio_off_collector) = 0
   \<and> \<not> has_sufficient_entropy_gui 30 300 100 101 audio_off_collector
   \<and> generate_random_numbers 24 400 101 (\<lambda>i. 77) audio_off_rng
       = Inl (ValueError Insufficient_entropy)"
proof -
  have a: "\<not> audio_recording audio_off_collector"
    and l: "len (audio_entropy audio_off_collector) = 0"
    and m: "len (mouse_entropy audio_off_collector) = 300"
    by (simp_all add: audio_off_collector_def start_collection_gui_def Let_def
        EntropyCollector_gui_init_def deque_new_def len_def)
  have d: "get_mouse_movement_duration 101 audio_off_collector = 32"
    by (simp add: get_mouse_movement_duration_def audio_off_collector_def
        start_collection_gui_def Let_def EntropyCollector_gui_init_def example_float_sums)
  have s: "fst (start_collection_gui 0 False EntropyCollector_gui_init)
             = [Listener_start 0, Thread_start ''cpu'' 0]"
    by (simp add: start_collection_gui_def Let_def EntropyCollector_gui_init_def fresh_def)
  have n: "\<not> has_sufficient_entropy_gui 30 300 100 101 audio_off_collector"
    by (simp add: has_sufficient_entropy_gui_def Let_def l)
  have g: "generate_random_numbers 24 400 101 (\<lambda>i. 77) audio_off_rng
             = Inl (ValueError Insufficient_entropy)"
    by (rule audio_short_never_generates) (simp add: audio_off_rng_def l)
  from a l m d s n g audio_off_no_samples [OF a] show ?thesis by simp
qed

section \<open>The status query\<close>

text \<open>
  Claim C9, as the code has it. \<open>get_entropy_status\<close> is a function of the generator
  state alone and returns nothing but sample counts: one per pool and \<open>total_samples\<close>,
  which is the sum of the counts of all pools of the program, that is the length of the
  pool snapshot. The active duration and the activity flag are not part of it; they are
  the separate queries \<open>get_mouse_movement_duration\<close> and \<open>is_mouse_currently_active\<close>.
\<close>

theorem status_counts:
  "get_entropy_status r =
     [(''mouse_samples'', int (len (mouse_entropy (collector r)))),
      (''cpu_samples'', int (len (cpu_entropy (collector r)))),
      (''total_samples'', int (length (get_entropy_pool (collector r))))]
   \<and> int (length (get_entropy_pool (collector r)))
       = int (len (mouse_entropy (collector r))) + int (len (cpu_entropy (collector r)))
   \<and> get_entropy_status_gui g =
     [(''mouse_samples'', int (len (mouse_entropy (collector_gui g)))),
      (''cpu_samples'', int (len (cpu_entropy (collector_gui g)))),
      (''audio_samples'', int (len (audio_entropy (collector_gui g)))),
      (''total_samples'', int (length (get_entropy_pool_gui (collector_gui g))))]
   \<and> int (length (get_entropy_pool_gui (collector_gui g)))
       = int (len (mouse_entropy (collector_gui g))) + int (len (cpu_entropy (collector_gui g)))
         + int (len (audio_entropy (collector_gui g)))"
  by (simp add: get_entropy_status_def get_entropy_status_gui_def get_entropy_pool_def
      get_entropy_pool_gui_def len_def Let_def)

text \<open>The status of a generator has exactly three entries, none for a duration or a flag.\<close>

theorem status_fields_counterexample:
  "map fst (get_entropy_status sufficient_rng) = [''mouse_samples'', ''cpu_samples'', ''total_samples'']
   \<and> map_of (get_entropy_status sufficient_rng) ''active_duration_seconds'' = None
   \<and> map_of (get_entropy_status sufficient_rng) ''is_pointer_active'' = None"
  by (simp add: get_entropy_status_def Let_def)

section \<open>Starting and stopping\<close>

text \<open>
  Claim C7, as the code has it. \<open>stop_collection\<close> has no failing branch and a second
  call in a row leaves every attribute of the collector as the first call left it, with
  \<open>collecting\<close> (and \<open>audio_recording\<close>) false. \<open>start_collection\<close> has no failing
  branch either but is not guarded: whatever the state, it sets \<open>collecting\<close>, clears the
  activity tracker and creates and starts a further listener and scheduler thread; the
  pools are kept.
\<close>

theorem start_stop_repeated:
  "snd (stop_collection (snd (stop_collection c))) = snd (stop_collection c)
   \<and> \<not> collecting (snd (stop_collection c))
   \<and> snd (stop_collection_gui (snd (stop_collection_gui g))) = snd (stop_collection_gui g)
   \<and> \<not> collecting (snd (stop_collection_gui g))
   \<and> \<not> audio_recording (snd (stop_collection_gui g))
   \<and> collecting (snd (start_collection now c))
   \<and> total_active_movement_time (snd (start_collection now c)) = 0
   \<and> last_mouse_activity (snd (start_collection now c)) = None
   \<and> mouse_entropy (snd (start_collection now c)) = mouse_entropy c
   \<and> cpu_entropy (snd (start_collection now c)) = cpu_entropy c
   \<and> fst (start_collection now c)
       = [Listener_start (fresh (mouse_listener c)), Thread_start ''cpu'' (fresh (cpu_thread c))]
   \<and> collecting (snd (start_collection_gui now audio g))
   \<and> total_active_movement_time (snd (start_collection_gui now audio g)) = 0
   \<and> last_mouse_activity (snd (start_collection_gui now audio g)) = None"
  by (simp add: stop_collection_def stop_collection_gui_def start_collection_def
      start_collection_gui_def Let_def)

text \<open>
  A collector that is collecting, with 12 seconds accumulated: another
  \<open>start_collection\<close> discards the accumulated time and the last activity and starts a
  second listener and a second scheduler thread.
\<close>

theorem start_while_collecting_counterexample:
  "collecting running_collector
   \<and> total_active_movement_time running_collector = 12
   \<and> total_active_movement_time (snd (start_collection 60 running_collector)) = 0
   \<and> last_mouse_activity (snd (start_collection 60 running_collector)) = None
   \<and> snd (start_collection 60 running_collector) \<noteq> running_collector
   \<and> fst (start_collection 60 running_collector) = [Listener_start 1, Thread_start ''cpu'' 1]"
proof -
  have "total_active_movement_time (snd (start_collection 60 running_collector))
          \<noteq> total_active_movement_time running_collector"
    by (simp add: running_collector_def start_collection_def Let_def)
  then have "snd (start_collection 60 running_collector) \<noteq> running_collector"
    by auto
  then show ?thesis
    by (simp add: running_collector_def start_collection_def Let_def fresh_def
        EntropyCollector_init_def)
qed

text \<open>
  What a second \<open>stop_collection\<close> of the GUI program does outside the collector: the
  stream handle is never cleared, so \<open>stop_stream\<close> and \<open>close\<close> are called on it
  again.
\<close>

lemma stop_collection_gui_second_call:
  "audio_stream g = Some s \<Longrightarrow>
   fst (stop_collection_gui (snd (stop_collection_gui g)))
     = (case mouse_listener g of None \<Rightarrow> [] | Some l \<Rightarrow> [Listener_stop l])
       @ [Stream_stop_stream s, Stream_close s]"
  by (simp add: stop_collection_gui_def)

section \<open>Feeding the hasher\<close>

lemma samples_u32_Cons: "samples_u32 (x # xs) = (0 \<le> x \<and> x < 2 ^ 32 \<and> samples_u32 xs)"
  by (simp add: samples_u32_def)

lemma samples_u32_append: "samples_u32 (xs @ ys) = (samples_u32 xs \<and> samples_u32 ys)"
  by (simp add: samples_u32_def)

lemma samples_u32_replicate: "0 \<le> x \<Longrightarrow> x < 2 ^ 32 \<Longrightarrow> samples_u32 (replicate n x)"
  by (induction n) (simp_all add: samples_u32_def)

lemma to_bytes4_u32: "0 \<le> n \<Longrightarrow> n < 2 ^ 32 \<Longrightarrow> to_bytes4 n = Inr (be4 n)"
  by (simp add: to_bytes4_def be4_def)

lemma to_bytes4_error: "to_bytes4 n = Inl e \<Longrightarrow> e = OverflowError"
  by (auto simp: to_bytes4_def split: if_splits)

lemma update_samples_u32:
  "samples_u32 xs \<Longrightarrow> update_samples xs h = Inr (h @ concat (map be4 xs))"
  by (induction xs arbitrary: h)
     (simp_all add: samples_u32_Cons to_bytes4_u32 hasher_update_def)

lemma update_samples_error: "update_samples xs h = Inl e \<Longrightarrow> e = OverflowError"
  by (induction xs arbitrary: h) (auto split: sum.splits dest: to_bytes4_error)

lemma generate_random_number_result:
  assumes "samples_u32 (get_entropy_pool (collector r))"
    and "has_sufficient_entropy 30 300 now (collector r)"
    and "m \<le> int (length (get_entropy_pool (collector r)))"
  shows "generate_random_number m now now_ns r
           = Inr (mix_one_spec now_ns (get_entropy_pool (collector r)),
                  r\<lparr>generated_numbers :=
                      generated_numbers r @ [mix_one_spec now_ns (get_entropy_pool (collector r))]\<rparr>)"
  using assms
  by (simp add: generate_random_number_def update_samples_u32 mix_one_spec_def Let_def
      hasher_update_def hasher_digest_def sha256_new_def)

lemma sufficient_pool_length:
  "has_sufficient_entropy 30 300 now c \<Longrightarrow> 300 \<le> int (length (get_entropy_pool c))"
  by (simp add: has_sufficient_entropy_def get_entropy_pool_def len_def Let_def)

lemma sufficient_pool_length_gui:
  "has_sufficient_entropy_gui 30 300 100 now c \<Longrightarrow> 400 \<le> int (length (get_entropy_pool_gui c))"
  by (simp add: has_sufficient_entropy_gui_def get_entropy_pool_gui_def len_def Let_def)

lemma generate_random_number_error:
  "generate_random_number m now now_ns r = Inl e \<Longrightarrow>
   e = (if \<not> has_sufficient_entropy 30 300 now (collector r) then ValueError Insufficient_entropy
        else if int (length (get_entropy_pool (collector r))) < m
        then ValueError Insufficient_total_entropy else OverflowError)"
  by (auto simp: generate_random_number_def Let_def split: if_splits sum.splits
      dest: update_samples_error)

lemma update_samples_Inr:
  "update_samples xs h = Inr h' \<Longrightarrow> samples_u32 xs \<and> h' = h @ concat (map be4 xs)"
proof (induction xs arbitrary: h)
  case Nil
  then show ?case by (simp add: samples_u32_def)
next
  case (Cons x xs)
  from Cons.prems obtain bs where bs: "to_bytes4 x = Inr bs"
    and rest: "update_samples xs (hasher_update bs h) = Inr h'"
    by (auto split: sum.splits)
  from bs have x: "0 \<le> x \<and> x < 2 ^ 32" and bs_eq: "bs = be4 x"
    by (auto simp: to_bytes4_def be4_def split: if_splits)
  from Cons.IH [OF rest] x bs_eq show ?case
    by (simp add: samples_u32_Cons hasher_update_def)
qed

lemma generate_random_number_Inr:
  assumes "generate_random_number m now now_ns r = Inr (v, r')"
  shows "collector r' = collector r"
    and "v = mix_one_spec now_ns (get_entropy_pool (collector r))"
    and "has_sufficient_entropy 30 300 now (collector r)"
proof -
  from assms obtain h where
    suff: "has_sufficient_entropy 30 300 now (collector r)"
    and h: "update_samples (get_entropy_pool (collector r))
              (hasher_update (encode (str_int now_ns)) sha256_new) = Inr h"
    and res: "(v, r') = (from_bytes_big (take 4 (hasher_digest h)) mod 2048,
                r\<lparr>generated_numbers := generated_numbers r
                     @ [from_bytes_big (take 4 (hasher_digest h)) mod 2048]\<rparr>)"
    by (auto simp: generate_random_number_def Let_def split: if_splits sum.splits)
  from update_samples_Inr [OF h]
  have "h = encode (str_int now_ns) @ concat (map be4 (get_entropy_pool (collector r)))"
    by (simp add: hasher_update_def sha256_new_def)
  with res show "v = mix_one_spec now_ns (get_entropy_pool (collector r))"
    by (simp add: mix_one_spec_def hasher_digest_def)
  from res show "collector r' = collector r" by simp
  from suff show "has_sufficient_entropy 30 300 now (collector r)" .
qed

lemma mix_one_spec_range: "0 \<le> mix_one_spec t xs \<and> mix_one_spec t xs < 2048"
  by (simp add: mix_one_spec_def)

lemma sufficient_rng_pool: "get_entropy_pool (collector sufficient_rng) = replicate 300 7"
  by (simp add: sufficient_rng_def sufficient_collector_def get_entropy_pool_def
      EntropyCollector_init_def deque_new_def)

lemma sufficient_rng_u32: "samples_u32 (get_entropy_pool (collector sufficient_rng))"
  by (simp add: sufficient_rng_pool samples_u32_replicate)

lemma sufficient_rng_ok: "has_sufficient_entropy 30 300 101 (collector sufficient_rng)"
  by (simp add: sufficient_rng_def sufficient_collector_ok)

section \<open>Generating one number\<close>

text \<open>
  Claim C1. For a generator whose pool snapshot consists of u32 samples and passes the
  gate, \<open>generate_random_number\<close> returns the value that the specification describes:
  the SHA-256 digest of the decimal string of the timestamp followed by every sample of
  the snapshot, in order, as 4 bytes big-endian, its first 4 bytes read as a big-endian
  unsigned integer and reduced modulo 2048. The value is appended to the history, and it
  lies in \<open>[0, 2048)\<close>.
\<close>

theorem generate_one_mixing:
  assumes "samples_u32 (get_entropy_pool (collector r))"
    and "has_sufficient_entropy 30 300 now (collector r)"
  shows "generate_random_number 300 now now_ns r
           = Inr (mix_one_spec now_ns (get_entropy_pool (collector r)),
                  r\<lparr>generated_numbers :=
                      generated_numbers r @ [mix_one_spec now_ns (get_entropy_pool (collector r))]\<rparr>)
       \<and> 0 \<le> mix_one_spec now_ns (get_entropy_pool (collector r))
       \<and> mix_one_spec now_ns (get_entropy_pool (collector r)) < 2048"
  using generate_random_number_result [OF assms sufficient_pool_length [OF assms(2)]]
    mix_one_spec_range by simp

theorem generate_one_mixing_witness:
  "samples_u32 (get_entropy_pool (collector sufficient_rng))
   \<and> has_sufficient_entropy 30 300 101 (collector sufficient_rng)
   \<and> generate_random_number 300 101 1730000000123456789 sufficient_rng
       = Inr (mix_one_spec 1730000000123456789 (replicate 300 7),
              sufficient_rng\<lparr>generated_numbers :=
                 [mix_one_spec 1730000000123456789 (replicate 300 7)]\<rparr>)
   \<and> 0 \<le> mix_one_spec 1730000000123456789 (replicate 300 7)
   \<and> mix_one_spec 1730000000123456789 (replicate 300 7) < 2048"
proof -
  have g: "generated_numbers sufficient_rng = []"
    by (simp add: sufficient_rng_def)
  from generate_one_mixing [OF sufficient_rng_u32 sufficient_rng_ok, of 1730000000123456789]
  show ?thesis
    using sufficient_rng_u32 sufficient_rng_ok by (simp add: sufficient_rng_pool g)
qed

text \<open>
  Claim C8. The value returned by \<open>generate_random_number\<close> is determined by the pool
  snapshot and the timestamp fed to the hasher: two successful calls with equal snapshots
  and the same timestamp return equal values, whatever the history of generated numbers,
  the reading of \<open>time.time()\<close> and the minimum asked for; and a call leaves the collector,
  hence the snapshot, as it was, so a second call in a row at the same timestamp returns
  the same value again.
\<close>

theorem generate_one_deterministic:
  assumes "get_entropy_pool (collector r1) = get_entropy_pool (collector r2)"
    and "generate_random_number m1 now1 now_ns r1 = Inr (v1, r1')"
    and "generate_random_number m2 now2 now_ns r2 = Inr (v2, r2')"
  shows "v1 = v2 \<and> get_entropy_pool (collector r1') = get_entropy_pool (collector r1)"
  using generate_random_number_Inr(1,2) [OF assms(2)]
    generate_random_number_Inr(2) [OF assms(3)] assms(1)
  by simp

theorem generate_one_deterministic_witness:
  "\<exists>v r' r''. generate_random_number 300 101 1730000000123456789 sufficient_rng = Inr (v, r')
     \<and> generate_random_number 300 101 1730000000123456789 r' = Inr (v, r'')"
proof -
  let ?t = "1730000000123456789 :: int"
  obtain v r' where first: "generate_random_number 300 101 ?t sufficient_rng = Inr (v, r')"
    using generate_random_number_result
      [OF sufficient_rng_u32 sufficient_rng_ok sufficient_pool_length [OF sufficient_rng_ok]]
    by blast
  have c: "collector r' = collector sufficient_rng"
    using generate_random_number_Inr(1) [OF first] .
  obtain w r'' where second: "generate_random_number 300 101 ?t r' = Inr (w, r'')"
    using generate_random_number_result [of r' 101 300 ?t]
      sufficient_rng_u32 sufficient_rng_ok sufficient_pool_length [OF sufficient_rng_ok]
    by (simp add: c)
  have "get_entropy_pool (collector sufficient_rng) = get_entropy_pool (collector r')"
    by (simp add: c)
  from generate_one_deterministic [OF this first second] have "v = w" by simp
  with first second show ?thesis by blast
qed

section \<open>Generating a batch\<close>

lemma xor3_u32:
  assumes "0 \<le> s" "s < 2 ^ 32" "0 \<le> i" "i < 2 ^ 32" "0 \<le> j" "j < 2 ^ 32"
  shows "0 \<le> s XOR i XOR j \<and> s XOR i XOR j < (2 ^ 32 :: int)"
proof -
  have a: "0 \<le> s XOR i" using assms by simp
  have b: "s XOR i < 2 ^ 32" using assms by (intro XOR_upper) simp_all
  have "s XOR i XOR j < 2 ^ 32" using a b assms by (intro XOR_upper) simp_all
  moreover have "0 \<le> s XOR i XOR j" using a assms by simp
  ultimately show ?thesis by simp
qed

lemma update_samples_indexed_u32:
  "samples_u32 xs \<Longrightarrow> 0 \<le> i \<Longrightarrow> i < 2 ^ 32 \<Longrightarrow> int (j + length xs) \<le> 2 ^ 32 \<Longrightarrow>
   update_samples_indexed i j xs h
     = Inr (h @ concat (map (\<lambda>(k, s). be4 (s XOR i XOR int k)) (enumerate j xs)))"
proof (induction xs arbitrary: j h)
  case Nil
  then show ?case by simp
next
  case (Cons x xs)
  have x: "0 \<le> x" "x < 2 ^ 32" and xs: "samples_u32 xs"
    using Cons.prems(1) by (simp_all add: samples_u32_Cons)
  have j: "0 \<le> int j" "int j < 2 ^ 32" using Cons.prems(4) by simp_all
  have "0 \<le> x XOR i XOR int j \<and> x XOR i XOR int j < 2 ^ 32"
    using x Cons.prems(2,3) j by (rule xor3_u32)
  then have enc: "to_bytes4 (x XOR i XOR int j) = Inr (be4 (x XOR i XOR int j))"
    by (simp add: to_bytes4_u32)
  have "int (Suc j + length xs) \<le> 2 ^ 32" using Cons.prems(4) by simp
  from Cons.IH [OF xs Cons.prems(2,3) this] enc show ?case
    by (simp add: hasher_update_def)
qed

lemma update_samples_indexed_error:
  "update_samples_indexed i j xs h = Inl e \<Longrightarrow> e = OverflowError"
  by (induction xs arbitrary: j h) (auto split: sum.splits dest: to_bytes4_error)

lemma generate_index_u32:
  assumes "samples_u32 pool" and "int i < 2 ^ 32" and "int (length pool) \<le> 2 ^ 32"
  shows "generate_index t pool i = Inr (mix_many_spec t pool i)"
proof -
  have "update_samples_indexed (int i) 0 pool h
          = Inr (h @ concat (map (\<lambda>(k, s). be4 (s XOR int i XOR int k)) (enumerate 0 pool)))"
    for h
    using assms by (intro update_samples_indexed_u32) simp_all
  then show ?thesis
    by (simp add: generate_index_def mix_many_spec_def Let_def hasher_update_def
        hasher_digest_def sha256_new_def)
qed

lemma generate_index_error: "generate_index t pool i = Inl e \<Longrightarrow> e = OverflowError"
  by (auto simp: generate_index_def Let_def split: sum.splits
      dest: update_samples_indexed_error)

lemma generate_index_overflow:
  assumes "0 \<le> s" and "s < 2 ^ 32" and "2 ^ 32 \<le> int i" and "int i < 2 ^ 33"
  shows "generate_index t (s # pool) i = Inl OverflowError"
proof -
  have "s XOR int i XOR int 0 = s XOR int i" by simp
  moreover have "\<not> s XOR int i < 2 ^ 32"
  proof
    assume lt: "s XOR int i < 2 ^ 32"
    have nonneg: "0 \<le> s XOR int i" using assms by simp
    have "(s XOR int i) XOR s < 2 ^ 32"
      by (rule XOR_upper [OF nonneg lt assms(2)])
    moreover have "(s XOR int i) XOR s = int i"
      by (simp add: xor.commute xor.left_commute)
    ultimately have "int i < 2 ^ 32" by (simp only:)
    with assms(3) show False by simp
  qed
  ultimately have "to_bytes4 (s XOR int i XOR int 0) = Inl OverflowError"
    by (simp add: to_bytes4_def)
  then show ?thesis by (simp add: generate_index_def)
qed

lemma generate_loop_ok:
  "\<forall>i \<in> set idxs. generate_index (clock i) pool i = Inr (f i) \<Longrightarrow>
   generate_loop clock pool idxs numbers = Inr (numbers @ map f idxs)"
  by (induction idxs arbitrary: numbers) simp_all

lemma generate_loop_error: "generate_loop clock pool idxs numbers = Inl e \<Longrightarrow> e = OverflowError"
  by (induction idxs arbitrary: numbers) (auto split: sum.splits dest: generate_index_error)

lemma generate_loop_fails:
  "i \<in> set idxs \<Longrightarrow> generate_index (clock i) pool i = Inl e \<Longrightarrow>
   generate_loop clock pool idxs numbers = Inl OverflowError"
proof (induction idxs arbitrary: numbers)
  case Nil
  then show ?case by simp
next
  case (Cons k idxs)
  show ?case
  proof (cases "generate_index (clock k) pool k")
    case (Inl e')
    then show ?thesis using generate_index_error [OF Inl] by simp
  next
    case (Inr v)
    with Cons.prems have "i \<in> set idxs" by auto
    from Cons.IH [OF this Cons.prems(2)] Inr show ?thesis by simp
  qed
qed

lemma mix_many_spec_range: "0 \<le> mix_many_spec t xs i \<and> mix_many_spec t xs i < 2048"
  by (simp add: mix_many_spec_def)

lemma generate_random_numbers_result:
  assumes u32: "samples_u32 (get_entropy_pool_gui (collector_gui g))"
    and ln: "int (length (get_entropy_pool_gui (collector_gui g))) \<le> 2 ^ 32"
    and suff: "has_sufficient_entropy_gui 30 300 100 now (collector_gui g)"
    and m: "m \<le> int (length (get_entropy_pool_gui (collector_gui g)))"
    and cnt: "count \<le> 2 ^ 32"
  shows "generate_random_numbers count m now clock g
           = Inr (map (\<lambda>i. mix_many_spec (clock i) (get_entropy_pool_gui (collector_gui g)) i)
                    [0..<nat count],
                  g\<lparr>generated_numbers_gui := generated_numbers_gui g
                      @ map (\<lambda>i. mix_many_spec (clock i) (get_entropy_pool_gui (collector_gui g)) i)
                          [0..<nat count]\<rparr>)"
proof -
  let ?pool = "get_entropy_pool_gui (collector_gui g)"
  have "\<forall>i \<in> set [0..<nat count].
          generate_index (clock i) ?pool i = Inr (mix_many_spec (clock i) ?pool i)"
  proof
    fix i assume "i \<in> set [0..<nat count]"
    then have "int i < 2 ^ 32" using cnt by auto
    with u32 show "generate_index (clock i) ?pool i = Inr (mix_many_spec (clock i) ?pool i)"
      using ln by (rule generate_index_u32)
  qed
  then have "generate_loop clock ?pool [0..<nat count] []
               = Inr ([] @ map (\<lambda>i. mix_many_spec (clock i) ?pool i) [0..<nat count])"
    by (rule generate_loop_ok)
  then show ?thesis using suff m
    by (simp add: generate_random_numbers_def Let_def)
qed

lemma generate_random_numbers_error:
  "generate_random_numbers count m now clock g = Inl e \<Longrightarrow>
   e = (if \<not> has_sufficient_entropy_gui 30 300 100 now (collector_gui g)
        then ValueError Insufficient_entropy
        else if int (length (get_entropy_pool_gui (collector_gui g))) < m
        then ValueError Insufficient_total_entropy else OverflowError)"
  by (auto simp: generate_random_numbers_def Let_def split: if_splits sum.splits
      dest: generate_loop_error)

section \<open>Well-formed states\<close>

lemma samples_u32_tl: "samples_u32 xs \<Longrightarrow> samples_u32 (tl xs)"
  by (cases xs) (simp_all add: samples_u32_def)

lemma pool_ok_new: "pool_ok (deque_new 2000)"
  by (simp add: pool_ok_def deque_new_def len_def samples_u32_def)

lemma pool_ok_append:
  assumes "pool_ok d" and "0 \<le> v" and "v < 4294967296"
  shows "pool_ok (deque_append d v)"
proof -
  have u: "samples_u32 (items d @ [v])"
    using assms by (simp add: pool_ok_def samples_u32_append samples_u32_Cons samples_u32_def)
  have "samples_u32 (items (deque_append d v))"
    using u samples_u32_tl [OF u] by (simp add: deque_append_items)
  moreover have "len (deque_append d v) \<le> 2000"
    using assms(1) deque_append_len [of d v] by (simp add: pool_ok_def len_def)
  ultimately show ?thesis
    using assms(1) by (simp add: pool_ok_def deque_append_maxlen)
qed

lemma mouse_sample_u32:
  fixes x y ts :: int
  defines "e \<equiv> (x XOR y XOR (ts AND 0xFFFFFFFF)) AND 0xFFFF"
  shows "0 \<le> e \<and> e < 2 ^ 32"
    and "0 \<le> e XOR ((ts mod 1000000) * 1000) \<and> e XOR ((ts mod 1000000) * 1000) < 2 ^ 32"
proof -
  have e0: "0 \<le> e" unfolding e_def by simp
  have "e \<le> 0xFFFF" unfolding e_def by (rule AND_upper2) simp
  then have e1: "e < 2 ^ 32" by simp
  show "0 \<le> e \<and> e < 2 ^ 32" using e0 e1 by simp
  have d0: "0 \<le> (ts mod 1000000) * 1000" by simp
  have "ts mod 1000000 < 1000000" by simp
  then have d1: "(ts mod 1000000) * 1000 < 2 ^ 32" by simp
  have "e XOR ((ts mod 1000000) * 1000) < 2 ^ 32"
    by (rule XOR_upper [OF e0 e1 d1])
  moreover have "0 \<le> e XOR ((ts mod 1000000) * 1000)" using e0 d0 by simp
  ultimately show "0 \<le> e XOR ((ts mod 1000000) * 1000) \<and> e XOR ((ts mod 1000000) * 1000) < 2 ^ 32"
    by simp
qed

lemma on_mouse_move_pools:
  "cpu_entropy (on_mouse_move x y ts t c) = cpu_entropy c
   \<and> (mouse_entropy (on_mouse_move x y ts t c) = mouse_entropy c
      \<or> (\<exists>v. 0 \<le> v \<and> v < 2 ^ 32
            \<and> mouse_entropy (on_mouse_move x y ts t c) = deque_append (mouse_entropy c) v))"
proof (cases "collecting c")
  case False
  then show ?thesis by (simp add: on_mouse_move_idle)
next
  case True
  let ?e = "(x XOR y XOR (ts AND 0xFFFFFFFF)) AND 0xFFFF"
  let ?v = "if 0 < len (mouse_entropy c) then ?e XOR ((ts mod 1000000) * 1000) else ?e"
  have "mouse_entropy (on_mouse_move x y ts t c) = deque_append (mouse_entropy c) ?v"
    and "cpu_entropy (on_mouse_move x y ts t c) = cpu_entropy c"
    using True by (simp_all add: on_mouse_move_def Let_def split: option.splits)
  moreover have "0 \<le> ?v \<and> ?v < 2 ^ 32"
    using mouse_sample_u32 [of x y ts] by (simp split: if_splits)
  ultimately show ?thesis by blast
qed

lemma well_formed_on_mouse_move: "well_formed c \<Longrightarrow> well_formed (on_mouse_move x y ts t c)"
  using on_mouse_move_pools [of x y ts t c]
  by (auto simp: well_formed_def intro: pool_ok_append)

lemma cpu_entropy_data_u32: "0 \<le> cpu_entropy_data v \<and> cpu_entropy_data v < 2 ^ 32"
proof -
  define w where "w = v / 2 ^ 32"
  define x where "x = v - of_int \<lfloor>w\<rfloor> * 2 ^ 32"
  have v: "v = w * 2 ^ 32" by (simp add: w_def)
  have lo: "of_int \<lfloor>w\<rfloor> \<le> w" and hi: "w < of_int \<lfloor>w\<rfloor> + 1" by linarith+
  have x0: "0 \<le> x" using lo by (simp add: x_def v)
  have "w * 4294967296 < (of_int \<lfloor>w\<rfloor> + 1) * 4294967296"
    using hi by (intro mult_strict_right_mono) simp_all
  then have x1: "x < 4294967296" by (simp add: x_def v algebra_simps)
  have "cpu_entropy_data v = \<lfloor>x\<rfloor>"
    by (simp add: cpu_entropy_data_def x_def w_def)
  moreover have "0 \<le> \<lfloor>x\<rfloor>" using x0 by simp
  moreover have "\<lfloor>x\<rfloor> < 4294967296" using x1 by (simp add: floor_less_iff)
  ultimately show ?thesis by simp
qed

lemma well_formed_cpu_step: "well_formed c \<Longrightarrow> well_formed (collect_cpu_entropy_step reading c)"
  using cpu_entropy_data_u32
  by (auto simp: well_formed_def collect_cpu_entropy_step_def Let_def
      split: option.splits intro: pool_ok_append)

lemma audio_entropy_data_u32:
  "0 \<le> audio_entropy_data r p v ts \<and> audio_entropy_data r p v ts < 2 ^ 32"
proof -
  let ?a = "(r AND 0xFFFF) XOR (p AND 0xFFFF) XOR ((v AND 0xFFFFFFFF) AND 0xFFFF) XOR (ts AND 0xFFFF)"
  have "?a AND 0xFFFF \<le> 0xFFFF" by (rule AND_upper2) simp
  moreover have "0 \<le> ?a AND 0xFFFF" by simp
  ultimately show ?thesis by (simp add: audio_entropy_data_def Let_def)
qed

lemma well_formed_gui_mouse_move:
  "well_formed_gui c \<Longrightarrow> well_formed_gui (on_mouse_move x y ts t c)"
proof -
  assume wf: "well_formed_gui c"
  have "audio_entropy (on_mouse_move x y ts t c) = audio_entropy c"
    by (simp add: on_mouse_move_def Let_def split: option.splits)
  with wf well_formed_on_mouse_move [of c x y ts t] show ?thesis
    by (simp add: well_formed_gui_def)
qed

lemma well_formed_gui_cpu_step:
  "well_formed_gui c \<Longrightarrow> well_formed_gui (collect_cpu_entropy_step reading c)"
proof -
  assume wf: "well_formed_gui c"
  have "audio_entropy (collect_cpu_entropy_step reading c) = audio_entropy c"
    by (simp add: collect_cpu_entropy_step_def Let_def split: option.splits)
  with wf well_formed_cpu_step [of c reading] show ?thesis
    by (simp add: well_formed_gui_def)
qed

lemma well_formed_gui_audio_step:
  "well_formed_gui c \<Longrightarrow> well_formed_gui (collect_audio_entropy_step reading c)"
  using audio_entropy_data_u32
  by (auto simp: well_formed_gui_def well_formed_def collect_audio_entropy_step_def Let_def
      split: option.splits intro: pool_ok_append)

lemma well_formed_init: "well_formed EntropyCollector_init"
  by (simp add: well_formed_def EntropyCollector_init_def pool_ok_new)

lemma well_formed_gui_init: "well_formed_gui EntropyCollector_gui_init"
  by (simp add: well_formed_gui_def well_formed_def EntropyCollector_gui_init_def pool_ok_new)

lemma well_formed_start_stop:
  "well_formed c \<Longrightarrow> well_formed (snd (start_collection now c))"
  "well_formed c \<Longrightarrow> well_formed (snd (stop_collection c))"
  by (simp_all add: well_formed_def start_collection_def stop_collection_def Let_def)

lemma well_formed_gui_start_stop:
  "well_formed_gui g \<Longrightarrow> well_formed_gui (snd (start_collection_gui now audio g))"
  "well_formed_gui g \<Longrightarrow> well_formed_gui (snd (stop_collection_gui g))"
  "well_formed_gui g \<Longrightarrow> well_formed_gui (collect_audio_entropy_open ok g)"
  by (simp_all add: well_formed_gui_def well_formed_def start_collection_gui_def
      stop_collection_gui_def collect_audio_entropy_open_def Let_def)

lemma well_formed_pool:
  "well_formed c \<Longrightarrow> samples_u32 (get_entropy_pool c)"
  by (simp add: well_formed_def pool_ok_def get_entropy_pool_def samples_u32_append)

lemma well_formed_gui_pool:
  "well_formed_gui g \<Longrightarrow>
   samples_u32 (get_entropy_pool_gui g) \<and> int (length (get_entropy_pool_gui g)) \<le> 2 ^ 32"
  by (simp add: well_formed_gui_def well_formed_def pool_ok_def get_entropy_pool_gui_def
      samples_u32_append len_def)

lemma sufficient_collector_wf: "well_formed sufficient_collector"
  by (simp add: well_formed_def pool_ok_def sufficient_collector_def EntropyCollector_init_def
      deque_new_def len_def samples_u32_replicate)
     (simp add: samples_u32_def)

lemma sufficient_collector_gui_wf: "well_formed_gui sufficient_collector_gui"
  by (simp add: well_formed_gui_def well_formed_def pool_ok_def sufficient_collector_gui_def
      no_audio_collector_def EntropyCollector_gui_init_def deque_new_def len_def
      samples_u32_replicate)
     (simp add: samples_u32_def)

lemma sufficient_rng_gui_wf: "well_formed_gui (collector_gui sufficient_rng_gui)"
  by (simp add: sufficient_rng_gui_def sufficient_collector_gui_wf)

lemma sufficient_rng_gui_ok:
  "has_sufficient_entropy_gui 30 300 100 101 (collector_gui sufficient_rng_gui)"
  by (simp add: sufficient_rng_gui_def sufficient_collector_gui_ok)

lemma sufficient_rng_wf: "well_formed (collector sufficient_rng)"
  by (simp add: sufficient_rng_def sufficient_collector_wf)

lemma sufficient_rng_gui_pool:
  "get_entropy_pool_gui (collector_gui sufficient_rng_gui)
     = 7 # (replicate 299 7 @ replicate 100 9)"
proof -
  have "replicate 300 (7::int) = 7 # replicate 299 7"
    by (simp add: replicate_Suc [symmetric] del: replicate_Suc)
  then show ?thesis
    by (simp add: sufficient_rng_gui_def sufficient_collector_gui_def no_audio_collector_def
        get_entropy_pool_gui_def EntropyCollector_gui_init_def deque_new_def)
qed

lemma generate_random_numbers_overflow:
  assumes "has_sufficient_entropy_gui 30 300 100 now (collector_gui g)"
    and "get_entropy_pool_gui (collector_gui g) = s # pool"
    and "0 \<le> s" and "s < 2 ^ 32"
    and "2 ^ 32 < count" and "count \<le> 2 ^ 33"
  shows "generate_random_numbers count 400 now clock g = Inl OverflowError"
proof -
  let ?i = "4294967296 :: nat"
  have mem: "?i \<in> set [0..<nat count]" using assms(5) by simp
  have "generate_index (clock ?i) (s # pool) ?i = Inl OverflowError"
    using assms(3,4) by (intro generate_index_overflow) simp_all
  from generate_loop_fails [of ?i "[0..<nat count]" clock "s # pool" OverflowError "[]", OF mem this]
  have "generate_loop clock (s # pool) [0..<nat count] [] = Inl OverflowError" .
  moreover have "400 \<le> int (length (s # pool))"
    using sufficient_pool_length_gui [OF assms(1)] assms(2) by simp
  ultimately show ?thesis
    using assms(1,2) by (simp add: generate_random_numbers_def Let_def)
qed

section \<open>The gate of the generators\<close>

text \<open>
  What holds of the gate. Each generator raises \<open>ValueError\<close> exactly when the
  sufficiency predicate is false or the pool snapshot has fewer samples than the minimum
  (300, respectively 400), whatever the state and the count. When the predicate holds and
  the snapshot meets the minimum, \<open>generate_random_number\<close> returns a value on a
  well-formed collector, and \<open>generate_random_numbers\<close> returns a list of values on a
  well-formed collector when \<open>count\<close> is at most \<open>2 ^ 32\<close>.
\<close>

theorem generation_gate:
  "insufficient_entropy_error (generate_random_number 300 now now_ns r)
     = (\<not> has_sufficient_entropy 30 300 now (collector r)
        \<or> int (length (get_entropy_pool (collector r))) < 300)
   \<and> (well_formed (collector r) \<and> has_sufficient_entropy 30 300 now (collector r)
        \<and> 300 \<le> int (length (get_entropy_pool (collector r)))
      \<longrightarrow> (\<exists>v r'. generate_random_number 300 now now_ns r = Inr (v, r')))
   \<and> insufficient_entropy_error (generate_random_numbers count 400 now clock g)
     = (\<not> has_sufficient_entropy_gui 30 300 100 now (collector_gui g)
        \<or> int (length (get_entropy_pool_gui (collector_gui g))) < 400)
   \<and> (well_formed_gui (collector_gui g) \<and> count \<le> 2 ^ 32
        \<and> has_sufficient_entropy_gui 30 300 100 now (collector_gui g)
        \<and> 400 \<le> int (length (get_entropy_pool_gui (collector_gui g)))
      \<longrightarrow> (\<exists>ys g'. generate_random_numbers count 400 now clock g = Inr (ys, g')))"
proof -
  let ?one = "generate_random_number 300 now now_ns r"
  let ?many = "generate_random_numbers count 400 now clock g"
  let ?ok1 = "has_sufficient_entropy 30 300 now (collector r)
                \<and> 300 \<le> int (length (get_entropy_pool (collector r)))"
  let ?ok2 = "has_sufficient_entropy_gui 30 300 100 now (collector_gui g)
                \<and> 400 \<le> int (length (get_entropy_pool_gui (collector_gui g)))"
  have s1: "\<exists>v r'. ?one = Inr (v, r')" if "well_formed (collector r)" and ?ok1
    using generate_random_number_result [OF well_formed_pool [OF that(1)], of now 300 now_ns]
      that(2) by simp
  have s2: "\<exists>ys g'. ?many = Inr (ys, g')"
    if wf: "well_formed_gui (collector_gui g)" and c: "count \<le> 2 ^ 32" and ok: ?ok2
  proof -
    have u2: "samples_u32 (get_entropy_pool_gui (collector_gui g))"
      and l2: "int (length (get_entropy_pool_gui (collector_gui g))) \<le> 2 ^ 32"
      using well_formed_gui_pool [OF wf] by simp_all
    show ?thesis
      using generate_random_numbers_result [OF u2 l2 _ _ c, of now 400 clock] ok by simp
  qed
  have f1: "insufficient_entropy_error ?one" if "\<not> ?ok1"
    using that by (auto simp: generate_random_number_def insufficient_entropy_error_def Let_def)
  have f2: "insufficient_entropy_error ?many" if "\<not> ?ok2"
    using that by (auto simp: generate_random_numbers_def insufficient_entropy_error_def Let_def)
  have n1: "\<not> insufficient_entropy_error ?one" if ?ok1
  proof (cases ?one)
    case (Inl e)
    from generate_random_number_error [OF Inl] that have "e = OverflowError" by simp
    with Inl show ?thesis by (simp add: insufficient_entropy_error_def)
  next
    case (Inr v)
    then show ?thesis by (simp add: insufficient_entropy_error_def)
  qed
  have n2: "\<not> insufficient_entropy_error ?many" if ?ok2
  proof (cases ?many)
    case (Inl e)
    from generate_random_numbers_error [OF Inl] that have "e = OverflowError" by simp
    with Inl show ?thesis by (simp add: insufficient_entropy_error_def)
  next
    case (Inr v)
    then show ?thesis by (simp add: insufficient_entropy_error_def)
  qed
  have "insufficient_entropy_error ?one = (\<not> ?ok1)" using f1 n1 by blast
  moreover have "insufficient_entropy_error ?many = (\<not> ?ok2)" using f2 n2 by blast
  ultimately show ?thesis using s1 s2 by (simp add: not_le)
qed

theorem generation_gate_witness:
  "well_formed (collector sufficient_rng)
   \<and> well_formed_gui (collector_gui sufficient_rng_gui)
   \<and> (24 :: int) \<le> 2 ^ 32
   \<and> has_sufficient_entropy 30 300 101 (collector sufficient_rng)
   \<and> 300 \<le> int (length (get_entropy_pool (collector sufficient_rng)))
   \<and> has_sufficient_entropy_gui 30 300 100 101 (collector_gui sufficient_rng_gui)
   \<and> 400 \<le> int (length (get_entropy_pool_gui (collector_gui sufficient_rng_gui)))
   \<and> \<not> insufficient_entropy_error (generate_random_number 300 101 77 sufficient_rng)
   \<and> (\<exists>v r'. generate_random_number 300 101 77 sufficient_rng = Inr (v, r'))
   \<and> \<not> insufficient_entropy_error
         (generate_random_numbers 24 400 101 (\<lambda>i. 77) sufficient_rng_gui)
   \<and> (\<exists>ys g'. generate_random_numbers 24 400 101 (\<lambda>i. 77) sufficient_rng_gui = Inr (ys, g'))"
proof -
  have c: "(24 :: int) \<le> 2 ^ 32" by simp
  have l1: "300 \<le> int (length (get_entropy_pool (collector sufficient_rng)))"
    using sufficient_rng_ok by (rule sufficient_pool_length)
  have l2: "400 \<le> int (length (get_entropy_pool_gui (collector_gui sufficient_rng_gui)))"
    using sufficient_rng_gui_ok by (rule sufficient_pool_length_gui)
  from generation_gate [of 101 77 sufficient_rng 24 "\<lambda>i. 77" sufficient_rng_gui]
  show ?thesis
    using sufficient_rng_wf sufficient_rng_gui_wf sufficient_rng_ok sufficient_rng_gui_ok l1 l2
    by simp
qed

text \<open>
  Claim C2. The claim holds but for the count of a batch: with the predicate true and 400
  samples in the snapshot, a call for 5000000000 numbers does not succeed. In iteration
  \<open>2 ^ 32\<close> the value \<open>s XOR i XOR j\<close> no longer fits the 4 bytes it is encoded in
  and the call raises \<open>OverflowError\<close>, which is not the insufficient-entropy error.
\<close>

theorem gate_passed_batch_overflow:
  "has_sufficient_entropy_gui 30 300 100 101 (collector_gui sufficient_rng_gui)
   \<and> 400 \<le> int (length (get_entropy_pool_gui (collector_gui sufficient_rng_gui)))
   \<and> generate_random_numbers 5000000000 400 101 (\<lambda>i. 77) sufficient_rng_gui
       = Inl OverflowError"
proof -
  have "generate_random_numbers 5000000000 400 101 (\<lambda>i. 77) sufficient_rng_gui
          = Inl OverflowError"
    using sufficient_rng_gui_ok sufficient_rng_gui_pool
    by (rule generate_random_numbers_overflow) simp_all
  then show ?thesis
    using sufficient_rng_gui_ok sufficient_pool_length_gui [OF sufficient_rng_gui_ok] by simp
qed

section \<open>The batch of numbers\<close>

text \<open>
  What holds of a batch. For a well-formed collector that passes the gate and a
  \<open>count\<close> of at most \<open>2 ^ 32\<close>, \<open>generate_random_numbers\<close> returns exactly
  \<open>count\<close> values (none for a negative \<open>count\<close>), each in \<open>[0, 2048)\<close>, appended to
  the history. The value at index \<open>i\<close> is the one the specification describes, computed
  from the decimal strings of \<open>t + i\<close> and of \<open>i\<close> and from every sample \<open>s\<close> at
  position \<open>j\<close> as \<open>s XOR i XOR j\<close> in 4 bytes big-endian, where \<open>t = clock i\<close> is
  the reading of the clock taken in iteration \<open>i\<close>: the same timestamp for every index
  when the clock does not advance during the call.
\<close>

theorem generate_many_mixing:
  assumes "well_formed_gui (collector_gui g)"
    and "has_sufficient_entropy_gui 30 300 100 now (collector_gui g)"
    and "count \<le> 2 ^ 32"
  shows "\<exists>ys. generate_random_numbers count 400 now clock g
                = Inr (ys, g\<lparr>generated_numbers_gui := generated_numbers_gui g @ ys\<rparr>)
           \<and> length ys = nat count
           \<and> (\<forall>i < nat count.
                 ys ! i = mix_many_spec (clock i) (get_entropy_pool_gui (collector_gui g)) i
                 \<and> 0 \<le> ys ! i \<and> ys ! i < 2048)"
proof -
  let ?pool = "get_entropy_pool_gui (collector_gui g)"
  let ?ys = "map (\<lambda>i. mix_many_spec (clock i) ?pool i) [0..<nat count]"
  have u: "samples_u32 ?pool" and l: "int (length ?pool) \<le> 2 ^ 32"
    using well_formed_gui_pool [OF assms(1)] by simp_all
  have "generate_random_numbers count 400 now clock g
          = Inr (?ys, g\<lparr>generated_numbers_gui := generated_numbers_gui g @ ?ys\<rparr>)"
    using u l assms(2) sufficient_pool_length_gui [OF assms(2)] assms(3)
    by (rule generate_random_numbers_result)
  moreover have "length ?ys = nat count" by simp
  moreover have "\<forall>i < nat count. ?ys ! i = mix_many_spec (clock i) ?pool i
                   \<and> 0 \<le> ?ys ! i \<and> ?ys ! i < 2048"
    using mix_many_spec_range by simp
  ultimately show ?thesis by blast
qed

theorem generate_many_mixing_witness:
  "well_formed_gui (collector_gui sufficient_rng_gui)
   \<and> has_sufficient_entropy_gui 30 300 100 101 (collector_gui sufficient_rng_gui)
   \<and> (24 :: int) \<le> 2 ^ 32
   \<and> (\<exists>ys. generate_random_numbers 24 400 101 (\<lambda>i. 1730000000123456789) sufficient_rng_gui
              = Inr (ys, sufficient_rng_gui\<lparr>generated_numbers_gui := ys\<rparr>)
         \<and> length ys = 24
         \<and> ys ! 5 = mix_many_spec 1730000000123456789
                       (get_entropy_pool_gui (collector_gui sufficient_rng_gui)) 5
         \<and> 0 \<le> ys ! 5 \<and> ys ! 5 < 2048)"
proof -
  have c: "(24 :: int) \<le> 2 ^ 32" by simp
  have g: "generated_numbers_gui sufficient_rng_gui = []"
    by (simp add: sufficient_rng_gui_def)
  from generate_many_mixing [OF sufficient_rng_gui_wf sufficient_rng_gui_ok c,
      of "\<lambda>i. 1730000000123456789"]
  obtain ys where
    1: "generate_random_numbers 24 400 101 (\<lambda>i. 1730000000123456789) sufficient_rng_gui
          = Inr (ys, sufficient_rng_gui\<lparr>generated_numbers_gui := ys\<rparr>)"
    and 2: "length ys = 24"
    and 3: "\<forall>i < 24. ys ! i = mix_many_spec 1730000000123456789
                         (get_entropy_pool_gui (collector_gui sufficient_rng_gui)) i
                      \<and> 0 \<le> ys ! i \<and> ys ! i < 2048"
    by (auto simp: g)
  have "(5 :: nat) < 24" by simp
  with 3 have "ys ! 5 = mix_many_spec 1730000000123456789
                         (get_entropy_pool_gui (collector_gui sufficient_rng_gui)) 5
               \<and> 0 \<le> ys ! 5 \<and> ys ! 5 < 2048"
    by blast
  with 1 2 sufficient_rng_gui_wf sufficient_rng_gui_ok c show ?thesis by blast
qed

text \<open>
  Claim C3. The claim holds for every count up to \<open>2 ^ 32\<close>, as shown above, but a
  batch of \<open>2 ^ 32 + 1\<close> numbers is not returned: at index \<open>2 ^ 32\<close> the value
  \<open>s XOR i XOR j\<close> no longer fits 4 bytes and the call raises \<open>OverflowError\<close>.
\<close>

theorem batch_count_overflow:
  "well_formed_gui (collector_gui sufficient_rng_gui)
   \<and> has_sufficient_entropy_gui 30 300 100 101 (collector_gui sufficient_rng_gui)
   \<and> generate_random_numbers 4294967297 400 101 (\<lambda>i. 1730000000123456789) sufficient_rng_gui
       = Inl OverflowError"
proof -
  have "generate_random_numbers 4294967297 400 101 (\<lambda>i. 1730000000123456789) sufficient_rng_gui
          = Inl OverflowError"
    using sufficient_rng_gui_ok sufficient_rng_gui_pool
    by (rule generate_random_numbers_overflow) simp_all
  then show ?thesis
    using sufficient_rng_gui_wf sufficient_rng_gui_ok by simp
qed

section \<open>The second error branch\<close>

text \<open>
  Claim C10. At the default thresholds, whenever the sufficiency predicate holds the pool
  snapshot already has the minimum number of samples (300 for the single number, 400 for
  the batch), so neither generator ever raises the error of the second test,
  ``Insufficient total entropy''.
\<close>

theorem total_entropy_branch_unreachable:
  "(has_sufficient_entropy 30 300 now (collector r)
      \<longrightarrow> 300 \<le> int (length (get_entropy_pool (collector r))))
   \<and> generate_random_number 300 now now_ns r \<noteq> Inl (ValueError Insufficient_total_entropy)
   \<and> (has_sufficient_entropy_gui 30 300 100 now (collector_gui g)
      \<longrightarrow> 400 \<le> int (length (get_entropy_pool_gui (collector_gui g))))
   \<and> generate_random_numbers count 400 now clock g \<noteq> Inl (ValueError Insufficient_total_entropy)"
proof -
  have 1: "generate_random_number 300 now now_ns r \<noteq> Inl (ValueError Insufficient_total_entropy)"
  proof
    assume "generate_random_number 300 now now_ns r = Inl (ValueError Insufficient_total_entropy)"
    from generate_random_number_error [OF this] show False
      using sufficient_pool_length [of now "collector r"] by (auto split: if_splits)
  qed
  have 2: "generate_random_numbers count 400 now clock g
             \<noteq> Inl (ValueError Insufficient_total_entropy)"
  proof
    assume "generate_random_numbers count 400 now clock g
              = Inl (ValueError Insufficient_total_entropy)"
    from generate_random_numbers_error [OF this] show False
      using sufficient_pool_length_gui [of now "collector_gui g"] by (auto split: if_splits)
  qed
  from 1 2 show ?thesis
    using sufficient_pool_length sufficient_pool_length_gui by blast
qed

theorem total_entropy_branch_unreachable_witness:
  "has_sufficient_entropy 30 300 101 (collector sufficient_rng)
   \<and> 300 \<le> int (length (get_entropy_pool (collector sufficient_rng)))
   \<and> generate_random_number 300 101 77 sufficient_rng
       \<noteq> Inl (ValueError Insufficient_total_entropy)
   \<and> has_sufficient_entropy_gui 30 300 100 101 (collector_gui sufficient_rng_gui)
   \<and> 400 \<le> int (length (get_entropy_pool_gui (collector_gui sufficient_rng_gui)))
   \<and> generate_random_numbers 24 400 101 (\<lambda>i. 77) sufficient_rng_gui
       \<noteq> Inl (ValueError Insufficient_total_entropy)"
  using total_entropy_branch_unreachable [of 101 sufficient_rng 77 sufficient_rng_gui 24 "\<lambda>i. 77"]
    sufficient_rng_ok sufficient_rng_gui_ok
  by blast

end
